theory Spec2Isabelle
  imports Main "HOL-Library.Word"
begin

unbundle bit_operations_syntax

section \<open>Battery power control: the firmware of the two chip variants\<close>

text \<open>
  The repository holds the same firmware twice: \<^verbatim>\<open>code-attiny13.c\<close> for the ATTINY13 and
  \<^verbatim>\<open>code-attiny4_5_9_10.c\<close> for the ATTINY10. Each file has a busy-wait \<^verbatim>\<open>WaitMs\<close>, the
  state machine \<^verbatim>\<open>PollState\<close> and a \<^verbatim>\<open>main\<close> that initialises the pins and then calls
  \<^verbatim>\<open>PollState(); WaitMs(POLL_DELAY_MS);\<close> for ever.

  The embedding keeps the C variables and the I/O registers that \<^verbatim>\<open>PollState\<close> touches as
  fields of a record, 8-bit registers as \<open>8 word\<close> and the two \<^verbatim>\<open>uint16_t\<close> counters as
  \<open>16 word\<close>, so that \<open>+\<close> wraps as in C.
\<close>

subsection \<open>Constants of the source\<close>

text \<open>
  \<^verbatim>\<open>#define BIT(x) (1 << (x))\<close>. Every use combines the mask with an 8-bit register, so
  the mask is taken at 8 bits.
\<close>

definition BIT :: "nat \<Rightarrow> 8 word" where
  "BIT x = push_bit x 1"

definition GPO_PWR :: nat where
  "GPO_PWR = 1"

definition GPI_BUTTON :: nat where
  "GPI_BUTTON = 0"

definition GPI_CPU_CTRL :: nat where
  "GPI_CPU_CTRL = 2"

definition GPIO_CPU_BUTTON :: nat where
  "GPIO_CPU_BUTTON = 3"

definition PWR_STATE_off :: "8 word" where
  "PWR_STATE_off = 0"

definition PWR_STATE_on :: "8 word" where
  "PWR_STATE_on = 1"

definition PWR_STATE_on_off :: "8 word" where
  "PWR_STATE_on_off = 2"

definition POLL_DELAY_MS :: nat where
  "POLL_DELAY_MS = 10"

text \<open>
  \<^verbatim>\<open>#define DELAY_1S_CNT 85  // 1000/POLL_DELAY_MS (tested value)\<close>. The products
  \<^verbatim>\<open>10*DELAY_1S_CNT\<close> etc. are C \<^verbatim>\<open>int\<close> constants (16 bits on AVR) that are compared with a
  \<^verbatim>\<open>uint16_t\<close>; the largest is 850, so nothing overflows and the comparison is the one of
  the unsigned values.
\<close>

definition DELAY_1S_CNT :: nat where
  "DELAY_1S_CNT = 85"

subsection \<open>Bit numbers of the device headers\<close>

text \<open>
  The bit numbers \<^verbatim>\<open>SE\<close>, \<^verbatim>\<open>SM1\<close>, \<^verbatim>\<open>WDE\<close>, \<^verbatim>\<open>PCIF\<close>, \<^verbatim>\<open>PCIE\<close> (ATTINY13) and \<^verbatim>\<open>PCIF0\<close>,
  \<^verbatim>\<open>PCIE0\<close> (ATTINY10) come from \<^verbatim>\<open>xc.h\<close>, which is not part of the repository.
  They are parameters of the model.
\<close>

record avr_bits =
  SE :: nat
  SM1 :: nat
  WDE :: nat

record iotn13 = avr_bits +
  PCIF :: nat
  PCIE :: nat

record iotn10 = avr_bits +
  PCIF0 :: nat
  PCIE0 :: nat

subsection \<open>The machine state\<close>

text \<open>
  \<open>pwrCtrlState\<close> is the global \<^verbatim>\<open>uint8_t\<close>; \<open>btnTime\<close> and \<open>waitTimer\<close> are the
  \<^verbatim>\<open>static uint16_t\<close> locals of \<^verbatim>\<open>PollState\<close>; the others are the I/O registers that
  \<^verbatim>\<open>PollState\<close> writes in both variants. The registers whose names differ between the two
  chips extend the common record.
\<close>

record mcu =
  pwrCtrlState :: "8 word"
  btnTime :: "16 word"
  waitTimer :: "16 word"
  PORTB :: "8 word"
  DDRB :: "8 word"
  SREG :: "8 word"
  PCMSK :: "8 word"

record attiny13 = mcu +
  GIFR :: "8 word"
  GIMSK :: "8 word"
  MCUCR :: "8 word"
  WDTCR :: "8 word"

record attiny10 = mcu +
  PCIFR :: "8 word"
  PCICR :: "8 word"
  SMCR :: "8 word"
  WDTCSR :: "8 word"

text \<open>
  \<^verbatim>\<open>PollState\<close> reads the volatile register \<^verbatim>\<open>PINB\<close> twice in a cycle: once for the button
  (first component) and once, inside the \<^verbatim>\<open>switch\<close>, for the CPU control line (second
  component). The two reads are kept apart; a cycle that samples the pins once has both
  components equal.
\<close>

type_synonym reads = "8 word \<times> 8 word"

text \<open>
  A call of \<^verbatim>\<open>PollState\<close> ends in one of two ways. It returns, or (state
  \<^verbatim>\<open>PWR_STATE_on_off\<close>, settle time over) it arms the pin-change interrupt, executes
  \<^verbatim>\<open>sleep_cpu()\<close>, and after the wake-up enables the watchdog and waits in \<^verbatim>\<open>WaitMs\<close> for the
  reset (``Reset (using watchdog max 16ms)''), which restarts \<^verbatim>\<open>main\<close>. The second outcome
  carries the registers as they are when the watchdog is armed and the argument of that
  last \<^verbatim>\<open>WaitMs\<close>.
\<close>

datatype 's outcome = Return 's | Sleep_Reset 's nat

fun after :: "'s outcome \<Rightarrow> 's" where
  "after (Return s) = s"
| "after (Sleep_Reset s ms) = s"

subsection \<open>\<^verbatim>\<open>PollState\<close>, ATTINY13\<close>

definition PollState13 :: "iotn13 \<Rightarrow> reads \<Rightarrow> attiny13 \<Rightarrow> attiny13 outcome" where
  "PollState13 h r s0 =
    (let s1 = (if fst r AND BIT GPI_BUTTON = 0
               then s0\<lparr>btnTime := btnTime s0 + 1\<rparr>
               else s0\<lparr>btnTime := 0\<rparr>);
         s = s1\<lparr>waitTimer := waitTimer s1 + 1\<rparr>
     in
       if pwrCtrlState s = PWR_STATE_off then
         (let a = (if unat (waitTimer s) > 10 * DELAY_1S_CNT
                   then s\<lparr>PORTB := PORTB s OR BIT GPO_PWR,
                          pwrCtrlState := PWR_STATE_on_off\<rparr>
                   else s);
              b = (if unat (btnTime a) > 1 * DELAY_1S_CNT
                   then a\<lparr>PORTB := PORTB a AND NOT (BIT GPO_PWR),
                          waitTimer := 0\<rparr>
                   else a);
              c = (if snd r AND BIT GPI_CPU_CTRL \<noteq> 0
                   then b\<lparr>PORTB := PORTB b AND NOT (BIT GPO_PWR),
                          pwrCtrlState := PWR_STATE_on\<rparr>
                   else b)
          in Return c)
       else if pwrCtrlState s = PWR_STATE_on then
         (if snd r AND BIT GPI_CPU_CTRL = 0 then
            Return (s\<lparr>PORTB := PORTB s OR BIT GPO_PWR,
                      DDRB := DDRB s AND NOT (BIT GPIO_CPU_BUTTON),
                      waitTimer := 0,
                      pwrCtrlState := PWR_STATE_on_off\<rparr>)
          else if unat (btnTime s) > 4 * DELAY_1S_CNT then
            Return (s\<lparr>PORTB := PORTB s OR BIT GPO_PWR,
                      DDRB := DDRB s AND NOT (BIT GPIO_CPU_BUTTON),
                      waitTimer := 0,
                      pwrCtrlState := PWR_STATE_on_off\<rparr>)
          else if unat (btnTime s) > 0 then
            Return (s\<lparr>DDRB := DDRB s OR BIT GPIO_CPU_BUTTON\<rparr>)
          else
            Return (s\<lparr>DDRB := DDRB s AND NOT (BIT GPIO_CPU_BUTTON)\<rparr>))
       else if pwrCtrlState s = PWR_STATE_on_off then
         (if unat (waitTimer s) > 3 * DELAY_1S_CNT then
            Sleep_Reset
              (s\<lparr>GIFR := GIFR s OR BIT (PCIF h),
                 GIMSK := GIMSK s OR BIT (PCIE h),
                 SREG := SREG s OR BIT 7,
                 PCMSK := PCMSK s OR (BIT GPI_BUTTON OR BIT GPI_CPU_CTRL),
                 MCUCR := MCUCR s OR (BIT (SE h) OR BIT (SM1 h)),
                 WDTCR := WDTCR s OR BIT (WDE h)\<rparr>)
              20
          else Return s)
       else Return s)"

subsection \<open>\<^verbatim>\<open>PollState\<close>, ATTINY10\<close>

text \<open>
  The ATTINY10 file names the pin-change, sleep and watchdog registers \<^verbatim>\<open>PCIFR\<close>,
  \<^verbatim>\<open>PCICR\<close>, \<^verbatim>\<open>SMCR\<close>, \<^verbatim>\<open>WDTCSR\<close> and waits 30 ms for the reset.
\<close>

definition PollState10 :: "iotn10 \<Rightarrow> reads \<Rightarrow> attiny10 \<Rightarrow> attiny10 outcome" where
  "PollState10 h r s0 =
    (let s1 = (if fst r AND BIT GPI_BUTTON = 0
               then s0\<lparr>btnTime := btnTime s0 + 1\<rparr>
               else s0\<lparr>btnTime := 0\<rparr>);
         s = s1\<lparr>waitTimer := waitTimer s1 + 1\<rparr>
     in
       if pwrCtrlState s = PWR_STATE_off then
         (let a = (if unat (waitTimer s) > 10 * DELAY_1S_CNT
                   then s\<lparr>PORTB := PORTB s OR BIT GPO_PWR,
                          pwrCtrlState := PWR_STATE_on_off\<rparr>
                   else s);
              b = (if unat (btnTime a) > 1 * DELAY_1S_CNT
                   then a\<lparr>PORTB := PORTB a AND NOT (BIT GPO_PWR),
                          waitTimer := 0\<rparr>
                   else a);
              c = (if snd r AND BIT GPI_CPU_CTRL \<noteq> 0
                   then b\<lparr>PORTB := PORTB b AND NOT (BIT GPO_PWR),
                          pwrCtrlState := PWR_STATE_on\<rparr>
                   else b)
          in Return c)
       else if pwrCtrlState s = PWR_STATE_on then
         (if snd r AND BIT GPI_CPU_CTRL = 0 then
            Return (s\<lparr>PORTB := PORTB s OR BIT GPO_PWR,
                      DDRB := DDRB s AND NOT (BIT GPIO_CPU_BUTTON),
                      waitTimer := 0,
                      pwrCtrlState := PWR_STATE_on_off\<rparr>)
          else if unat (btnTime s) > 4 * DELAY_1S_CNT then
            Return (s\<lparr>PORTB := PORTB s OR BIT GPO_PWR,
                      DDRB := DDRB s AND NOT (BIT GPIO_CPU_BUTTON),
                      waitTimer := 0,
                      pwrCtrlState := PWR_STATE_on_off\<rparr>)
          else if unat (btnTime s) > 0 then
            Return (s\<lparr>DDRB := DDRB s OR BIT GPIO_CPU_BUTTON\<rparr>)
          else
            Return (s\<lparr>DDRB := DDRB s AND NOT (BIT GPIO_CPU_BUTTON)\<rparr>))
       else if pwrCtrlState s = PWR_STATE_on_off then
         (if unat (waitTimer s) > 3 * DELAY_1S_CNT then
            Sleep_Reset
              (s\<lparr>PCIFR := PCIFR s OR BIT (PCIF0 h),
                 PCICR := PCICR s OR BIT (PCIE0 h),
                 SREG := SREG s OR BIT 7,
                 PCMSK := PCMSK s OR (BIT GPI_BUTTON OR BIT GPI_CPU_CTRL),
                 SMCR := SMCR s OR (BIT (SE h) OR BIT (SM1 h)),
                 WDTCSR := WDTCSR s OR BIT (WDE h)\<rparr>)
              30
          else Return s)
       else Return s)"

subsection \<open>\<^verbatim>\<open>main\<close>: initialisation and the polling loop\<close>

text \<open>
  \<^verbatim>\<open>main\<close> runs after every reset. Its argument is the register file as the reset leaves
  it; the C runtime zeroes \<open>pwrCtrlState\<close>, \<open>btnTime\<close> and \<open>waitTimer\<close>. Of the
  initialisation only the writes to registers of the record are kept (the watchdog is
  switched off; \<^verbatim>\<open>PORTB |= BIT(GPO_PWR) | BIT(GPI_BUTTON); DDRB |= BIT(GPO_PWR);\<close> on the
  ATTINY13, \<^verbatim>\<open>PORTB |= BIT(GPO_PWR); DDRB |= BIT(GPO_PWR);\<close> on the ATTINY10, whose pull-up
  register \<^verbatim>\<open>PUEB\<close> is not used by \<^verbatim>\<open>PollState\<close>).
\<close>

definition main_init13 :: "attiny13 \<Rightarrow> attiny13" where
  "main_init13 hw =
     hw\<lparr>pwrCtrlState := 0, btnTime := 0, waitTimer := 0,
        WDTCR := 0,
        PORTB := PORTB hw OR (BIT GPO_PWR OR BIT GPI_BUTTON),
        DDRB := DDRB hw OR BIT GPO_PWR\<rparr>"

definition main_init10 :: "attiny10 \<Rightarrow> attiny10" where
  "main_init10 hw =
     hw\<lparr>pwrCtrlState := 0, btnTime := 0, waitTimer := 0,
        WDTCSR := 0,
        PORTB := PORTB hw OR BIT GPO_PWR,
        DDRB := DDRB hw OR BIT GPO_PWR\<rparr>"

text \<open>
  \<^verbatim>\<open>while(1) { PollState(); WaitMs(POLL_DELAY_MS); }\<close> on a finite list of pin reads, one
  pair per cycle. The loop stops where \<^verbatim>\<open>PollState\<close> does not return. The step function
  is the \<^verbatim>\<open>PollState\<close> of the variant.
\<close>

fun PollLoop :: "(reads \<Rightarrow> 's \<Rightarrow> 's outcome) \<Rightarrow> reads list \<Rightarrow> 's \<Rightarrow> 's outcome" where
  "PollLoop step [] s = Return s"
| "PollLoop step (r # rs) s =
     (case step r s of
        Return s' \<Rightarrow> PollLoop step rs s'
      | Sleep_Reset s' ms \<Rightarrow> Sleep_Reset s' ms)"

text \<open>The states in which a cycle can start, from a given state after \<^verbatim>\<open>main\<close>'s set-up.\<close>

inductive reach :: "(reads \<Rightarrow> 's \<Rightarrow> 's outcome) \<Rightarrow> 's \<Rightarrow> 's \<Rightarrow> bool"
  for step :: "reads \<Rightarrow> 's \<Rightarrow> 's outcome" and init :: 's where
  reach_init: "reach step init init"
| reach_step: "reach step init s \<Longrightarrow> step r s = Return s' \<Longrightarrow> reach step init s'"

subsection \<open>Logical signals\<close>

text \<open>
  The spec's names for what the pins mean. The button is pressed when pin
  \<^verbatim>\<open>GPI_BUTTON\<close> reads low, the host requests power when \<^verbatim>\<open>GPI_CPU_CTRL\<close> reads high; the
  power switch is on when \<^verbatim>\<open>GPO_PWR\<close> is driven low (``Active low (power-on)''); the
  line to the host is driven (low) when its direction bit is set and released otherwise.
\<close>

definition ButtonPressed :: "reads \<Rightarrow> bool" where
  "ButtonPressed r = (fst r AND BIT GPI_BUTTON = 0)"

definition HostPowerRequest :: "reads \<Rightarrow> bool" where
  "HostPowerRequest r = (snd r AND BIT GPI_CPU_CTRL \<noteq> 0)"

definition PowerOutputEnabled :: "'a mcu_scheme \<Rightarrow> bool" where
  "PowerOutputEnabled s = (PORTB s AND BIT GPO_PWR = 0)"

datatype HostButton = HighImpedance | DrivenLow

definition HostButtonSignal :: "'a mcu_scheme \<Rightarrow> HostButton" where
  "HostButtonSignal s =
     (if DDRB s AND BIT GPIO_CPU_BUTTON \<noteq> 0 then DrivenLow else HighImpedance)"

text \<open>What the spec observes of a machine state, and of the outcome of a cycle.\<close>

type_synonym view = "8 word \<times> 16 word \<times> 16 word \<times> bool \<times> HostButton"

definition view :: "'a mcu_scheme \<Rightarrow> view" where
  "view s = (pwrCtrlState s, btnTime s, waitTimer s, PowerOutputEnabled s, HostButtonSignal s)"

fun view_outcome :: "'a mcu_scheme outcome \<Rightarrow> bool \<times> view" where
  "view_outcome (Return s) = (False, view s)"
| "view_outcome (Sleep_Reset s ms) = (True, view s)"

subsection \<open>The state machine as the spec words it\<close>

text \<open>
  The second definition of the state machine follows the spec, not the source: the
  enumeration \<open>PowerState\<close>, the two counters and the two outputs as one context, and
  \<open>Advance\<close> as the transition table of section 4.3, its conditions checked top to bottom
  and only the first match applied. The threshold unit \<open>OneSecondCycles\<close> is the first
  argument. The counters have the width of the source's counters. The result says whether
  the machine went to sleep (the last row of the table) and gives the context.
\<close>

datatype PowerState = Off | On | TurningOff

record spec_context =
  State :: PowerState
  ButtonHoldCounter :: "16 word"
  IdleCounter :: "16 word"
  PowerOutput :: bool
  HostButtonOut :: HostButton

definition spec_Advance :: "nat \<Rightarrow> bool \<Rightarrow> bool \<Rightarrow> spec_context \<Rightarrow> bool \<times> spec_context" where
  "spec_Advance OneSecondCycles pressed host c0 =
    (let c = c0\<lparr>ButtonHoldCounter := (if pressed then ButtonHoldCounter c0 + 1 else 0),
                IdleCounter := IdleCounter c0 + 1\<rparr>
     in case State c of
          Off \<Rightarrow>
            if unat (IdleCounter c) > 10 * OneSecondCycles then
              (False, c\<lparr>State := TurningOff, PowerOutput := False\<rparr>)
            else if unat (ButtonHoldCounter c) > 1 * OneSecondCycles then
              (False, c\<lparr>PowerOutput := True, IdleCounter := 0\<rparr>)
            else if host then
              (False, c\<lparr>State := On, PowerOutput := True\<rparr>)
            else (False, c)
        | On \<Rightarrow>
            if \<not> host then
              (False, c\<lparr>State := TurningOff, PowerOutput := False,
                        HostButtonOut := HighImpedance, IdleCounter := 0\<rparr>)
            else if unat (ButtonHoldCounter c) > 4 * OneSecondCycles then
              (False, c\<lparr>State := TurningOff, PowerOutput := False,
                        HostButtonOut := HighImpedance, IdleCounter := 0\<rparr>)
            else if unat (ButtonHoldCounter c) > 0 then
              (False, c\<lparr>HostButtonOut := DrivenLow\<rparr>)
            else (False, c\<lparr>HostButtonOut := HighImpedance\<rparr>)
        | TurningOff \<Rightarrow>
            if unat (IdleCounter c) > 3 * OneSecondCycles then (True, c) else (False, c))"

text \<open>The spec's context seen as the view of a machine state.\<close>

fun PWR_STATE_of :: "PowerState \<Rightarrow> 8 word" where
  "PWR_STATE_of Off = PWR_STATE_off"
| "PWR_STATE_of On = PWR_STATE_on"
| "PWR_STATE_of TurningOff = PWR_STATE_on_off"

definition view_of_spec :: "spec_context \<Rightarrow> view" where
  "view_of_spec c =
     (PWR_STATE_of (State c), ButtonHoldCounter c, IdleCounter c, PowerOutput c, HostButtonOut c)"

text \<open>
  The three conditions of the rows of state \<open>Off\<close>, as the source tests them after the
  counters' update: the idle time is over, the button has been held long enough, the host
  requests power.
\<close>

definition Off_conditions :: "reads \<Rightarrow> 'a mcu_scheme \<Rightarrow> bool list" where
  "Off_conditions r s =
     [unat (waitTimer s + 1) > 10 * DELAY_1S_CNT,
      unat (if fst r AND BIT GPI_BUTTON = 0 then btnTime s + 1 else 0) > 1 * DELAY_1S_CNT,
      snd r AND BIT GPI_CPU_CTRL \<noteq> 0]"

subsection \<open>\<^verbatim>\<open>WaitMs\<close>\<close>

text \<open>
  \<^verbatim>\<open>WaitMs\<close> polls the free-running hardware counter \<^verbatim>\<open>TCNT0\<close>, 8 bits wide on the ATTINY13
  and 16 bits on the ATTINY10, which counts 16 ticks per millisecond (``16 clocks pr. 1
  ms''). The model of the hardware: the counter advances by one tick between two polls of
  a waiting loop (the loop is not slower than the counter), and straight-line code takes
  no time. \<open>elapsed\<close> counts the ticks a call has been waiting.
\<close>

record 'c timer =
  TCNT0 :: 'c
  elapsed :: nat

definition tick :: "'a::len word timer \<Rightarrow> 'a word timer" where
  "tick t = t\<lparr>TCNT0 := TCNT0 t + 1, elapsed := elapsed t + 1\<rparr>"

text \<open>\<^verbatim>\<open>while (TCNT0 < cnt) ;\<close>\<close>

function wait_while_below :: "'a::len word \<Rightarrow> 'a word timer \<Rightarrow> 'a word timer" where
  "wait_while_below cnt t = (if TCNT0 t < cnt then wait_while_below cnt (tick t) else t)"
  by pat_completeness auto
termination
proof (relation "measure (\<lambda>(cnt, t). unat cnt - unat (TCNT0 t))")
  show "wf (measure (\<lambda>(cnt :: 'a word, t :: 'a word timer). unat cnt - unat (TCNT0 t)))"
    by simp
next
  fix cnt :: "'a word" and t :: "'a word timer"
  assume lt: "TCNT0 t < cnt"
  then have lt': "unat (TCNT0 t) < unat cnt"
    by (simp add: word_less_nat_alt)
  have "unat cnt < 2 ^ LENGTH('a)" and "unat (1 :: 'a word) = 1"
    by (rule unsigned_less) simp
  with lt' have "unat (TCNT0 t) + unat (1 :: 'a word) < 2 ^ LENGTH('a)"
    by linarith
  then have "unat (TCNT0 t + 1) = unat (TCNT0 t) + unat (1 :: 'a word)"
    by (simp only: unat_add_lem)
  with lt' show "((cnt, tick t), (cnt, t)) \<in> measure (\<lambda>(cnt, t). unat cnt - unat (TCNT0 t))"
    by (simp add: tick_def)
qed

text \<open>\<^verbatim>\<open>while (TCNT0 > k) ;\<close> with \<open>k = 200\<close> (ATTINY13) and \<open>k = 1\<close> (ATTINY10): wait for the wrap.\<close>

function wait_while_above :: "'a::len word \<Rightarrow> 'a word timer \<Rightarrow> 'a word timer" where
  "wait_while_above k t = (if TCNT0 t > k then wait_while_above k (tick t) else t)"
  by pat_completeness auto
termination
proof (relation "measure (\<lambda>(k, t). if TCNT0 t > k then 2 ^ LENGTH('a) - unat (TCNT0 t) else 0)")
  show "wf (measure (\<lambda>(k :: 'a word, t :: 'a word timer).
          if TCNT0 t > k then 2 ^ LENGTH('a) - unat (TCNT0 t) else 0))"
    by simp
next
  fix k :: "'a word" and t :: "'a word timer"
  assume gt: "k < TCNT0 t"
  have b: "unat (TCNT0 t) < 2 ^ LENGTH('a)"
    by (rule unsigned_less)
  show "((k, tick t), (k, t)) \<in>
          measure (\<lambda>(k, t). if TCNT0 t > k then 2 ^ LENGTH('a) - unat (TCNT0 t) else 0)"
  proof (cases "TCNT0 t + 1 = 0")
    case True
    with gt b show ?thesis by (simp add: tick_def)
  next
    case False
    then have "unat (TCNT0 t + 1) = unat (TCNT0 t) + 1"
      using unatSuc [of "TCNT0 t"] by (simp add: add.commute)
    with b have "2 ^ LENGTH('a) - unat (TCNT0 t + 1) < 2 ^ LENGTH('a) - unat (TCNT0 t)"
      by linarith
    with gt show ?thesis by (simp add: tick_def)
  qed
qed

text \<open>
  ATTINY13: \<^verbatim>\<open>for (i=0; i<ms; i++) { if (cnt == 0) { while (TCNT0 > 200) ; } else { while
  (TCNT0 < cnt) ; } cnt += 16; }\<close> with \<^verbatim>\<open>uint16_t i\<close> and \<^verbatim>\<open>uint8_t cnt\<close>, after
  \<^verbatim>\<open>TCNT0 = 0; cnt = 16;\<close>.
\<close>

function WaitMs13_for :: "16 word \<Rightarrow> 16 word \<Rightarrow> 8 word \<Rightarrow> 8 word timer \<Rightarrow> 8 word timer" where
  "WaitMs13_for ms i cnt t =
     (if i < ms
      then WaitMs13_for ms (i + 1) (cnt + 16)
             (if cnt = 0 then wait_while_above 200 t else wait_while_below cnt t)
      else t)"
  by pat_completeness auto
termination
proof (relation "measure (\<lambda>(ms, i, cnt, t). unat ms - unat i)")
  show "wf (measure (\<lambda>(ms :: 16 word, i :: 16 word, cnt :: 8 word, t :: 8 word timer).
          unat ms - unat i))"
    by simp
next
  fix ms i :: "16 word" and cnt :: "8 word" and t :: "8 word timer"
  assume lt: "i < ms"
  then have lt': "unat i < unat ms"
    by (simp add: word_less_nat_alt)
  have "unat ms < 2 ^ LENGTH(16)" and "unat (1 :: 16 word) = 1"
    by (rule unsigned_less) simp
  with lt' have "unat i + unat (1 :: 16 word) < 2 ^ LENGTH(16)"
    by linarith
  then have "unat (i + 1) = unat i + unat (1 :: 16 word)"
    by (simp only: unat_add_lem)
  with lt' show "((ms, i + 1, cnt + 16,
                   if cnt = 0 then wait_while_above 200 t else wait_while_below cnt t),
                  (ms, i, cnt, t))
      \<in> measure (\<lambda>(ms, i, cnt, t). unat ms - unat i)"
    by simp
qed

definition WaitMs13 :: "16 word \<Rightarrow> 8 word timer \<Rightarrow> 8 word timer" where
  "WaitMs13 ms t = WaitMs13_for ms 0 16 (t\<lparr>TCNT0 := 0\<rparr>)"

text \<open>
  ATTINY10: \<^verbatim>\<open>cnt = TCNT0 + ms*16; if (cnt < TCNT0) { while (TCNT0 > 1) ; } while (TCNT0 <
  cnt) ;\<close> with \<^verbatim>\<open>uint16_t cnt\<close>; the product wraps at 16 bits (``max wait 4s'').
\<close>

definition WaitMs10 :: "16 word \<Rightarrow> 16 word timer \<Rightarrow> 16 word timer" where
  "WaitMs10 ms t0 =
     (let cnt = TCNT0 t0 + ms * 16;
          t1 = (if cnt < TCNT0 t0 then wait_while_above 1 t0 else t0)
      in wait_while_below cnt t1)"

subsection \<open>The invariant of the button line\<close>

text \<open>
  The button line to the host is driven low only in state On with a button-hold counter
  that is not 0.
\<close>

definition HostButton_inv :: "'a mcu_scheme \<Rightarrow> bool" where
  "HostButton_inv s =
     (HostButtonSignal s = DrivenLow \<longrightarrow> pwrCtrlState s = PWR_STATE_on \<and> btnTime s \<noteq> 0)"

subsection \<open>Sample inputs\<close>

text \<open>
  Concrete inputs at which the theorems below are instantiated: bit numbers as in the data
  sheets of the two chips, and machine states with a chosen state variable and chosen
  counters, the power switch off and the button line released.
\<close>

abbreviation sample_iotn13 :: iotn13 where
  "sample_iotn13 \<equiv> \<lparr>SE = 5, SM1 = 4, WDE = 3, PCIF = 5, PCIE = 5\<rparr>"

abbreviation sample_iotn10 :: iotn10 where
  "sample_iotn10 \<equiv> \<lparr>SE = 0, SM1 = 2, WDE = 3, PCIF0 = 0, PCIE0 = 0\<rparr>"

abbreviation sample13 :: "8 word \<Rightarrow> 16 word \<Rightarrow> 16 word \<Rightarrow> attiny13" where
  "sample13 st b w \<equiv>
     \<lparr>pwrCtrlState = st, btnTime = b, waitTimer = w, PORTB = 3, DDRB = 2, SREG = 0, PCMSK = 0,
      GIFR = 0, GIMSK = 0, MCUCR = 0, WDTCR = 0\<rparr>"

abbreviation sample10 :: "8 word \<Rightarrow> 16 word \<Rightarrow> 16 word \<Rightarrow> attiny10" where
  "sample10 st b w \<equiv>
     \<lparr>pwrCtrlState = st, btnTime = b, waitTimer = w, PORTB = 2, DDRB = 2, SREG = 0, PCMSK = 0,
      PCIFR = 0, PCICR = 0, SMCR = 0, WDTCSR = 0\<rparr>"

text \<open>The two machines with every register and variable at 0, as a reset leaves them.\<close>

abbreviation reset13 :: attiny13 where
  "reset13 \<equiv>
     \<lparr>pwrCtrlState = 0, btnTime = 0, waitTimer = 0, PORTB = 0, DDRB = 0, SREG = 0, PCMSK = 0,
      GIFR = 0, GIMSK = 0, MCUCR = 0, WDTCR = 0\<rparr>"

abbreviation reset10 :: attiny10 where
  "reset10 \<equiv>
     \<lparr>pwrCtrlState = 0, btnTime = 0, waitTimer = 0, PORTB = 0, DDRB = 0, SREG = 0, PCMSK = 0,
      PCIFR = 0, PCICR = 0, SMCR = 0, WDTCSR = 0\<rparr>"

section \<open>Properties of one cycle\<close>

subsection \<open>Masks and counters\<close>

lemma BIT_clear: "(w AND NOT (BIT n)) AND BIT n = 0"
  by (simp add: and.assoc)

lemma BIT_set: "(w OR BIT n) AND BIT n = BIT n"
  by (simp add: BIT_def bit_eq_iff bit_simps)

lemma BIT_pins: "BIT GPO_PWR \<noteq> 0" "BIT GPIO_CPU_BUTTON \<noteq> 0"
  by (simp_all add: BIT_def GPO_PWR_def GPIO_CPU_BUTTON_def)

lemmas PWR_STATE_defs = PWR_STATE_off_def PWR_STATE_on_def PWR_STATE_on_off_def

lemmas signal_defs = ButtonPressed_def HostPowerRequest_def PowerOutputEnabled_def
  HostButtonSignal_def

lemmas pin_defs = BIT_def GPO_PWR_def GPI_BUTTON_def GPI_CPU_CTRL_def GPIO_CPU_BUTTON_def

lemma unat_inc: "unat (w :: 16 word) < 65535 \<Longrightarrow> unat (w + 1) = unat w + 1"
proof -
  assume "unat w < 65535"
  then have "unat w + unat (1 :: 16 word) < 2 ^ LENGTH(16)"
    by simp
  then have "unat (w + 1) = unat w + unat (1 :: 16 word)"
    by (simp only: unat_add_lem)
  then show ?thesis
    by simp
qed

lemma btnTime_PollState13:
  "btnTime (after (PollState13 h r s)) = (if ButtonPressed r then btnTime s + 1 else 0)"
  by (simp add: PollState13_def Let_def ButtonPressed_def)

lemma btnTime_PollState10:
  "btnTime (after (PollState10 h r s)) = (if ButtonPressed r then btnTime s + 1 else 0)"
  by (simp add: PollState10_def Let_def ButtonPressed_def)

subsection \<open>The time constants\<close>

text \<open>
  C2, as the spec states it: the one-second constant is round(1000/PollPeriod), 100 cycles
  at the poll period of 10 ms. The source defines it as 85 (``tested value''), so the
  claim fails: 1000 divided by the poll period is 100, exactly, and the constant differs.
\<close>

theorem C2_one_second_counterexample:
  "1000 mod POLL_DELAY_MS = 0 \<and> 1000 div POLL_DELAY_MS = 100 \<and>
   DELAY_1S_CNT \<noteq> 1000 div POLL_DELAY_MS"
  by (simp add: POLL_DELAY_MS_def DELAY_1S_CNT_def)

text \<open>
  C2, amended: at the poll period of 10 ms the one-second constant is the tested value 85,
  and the four thresholds of the table are its multiples by 10, 1, 4 and 3, that is 850,
  85, 340 and 255 cycles; the largest stays below \<open>2 ^ 15\<close>, so the products do not
  overflow a 16-bit \<^verbatim>\<open>int\<close>.
\<close>

theorem C2_thresholds:
  "POLL_DELAY_MS = 10 \<and> DELAY_1S_CNT = 85 \<and>
   10 * DELAY_1S_CNT = 850 \<and> 1 * DELAY_1S_CNT = 85 \<and>
   4 * DELAY_1S_CNT = 340 \<and> 3 * DELAY_1S_CNT = 255 \<and>
   10 * DELAY_1S_CNT < 2 ^ 15"
  by (simp add: POLL_DELAY_MS_def DELAY_1S_CNT_def)

subsection \<open>The button-hold counter\<close>

text \<open>
  C7: in every cycle, of either variant, the button-hold counter is 0 after a cycle in
  which the button reads released, and is one more than before after a cycle in which it
  reads pressed, as long as it was below 65535, the largest value of the 16-bit counter;
  it is never negative.
\<close>

theorem C7_ButtonHoldCounter:
  "(\<not> ButtonPressed r \<longrightarrow>
      btnTime (after (PollState13 h r s)) = 0 \<and> btnTime (after (PollState10 h' r t)) = 0) \<and>
   (ButtonPressed r \<and> unat (btnTime s) < 65535 \<longrightarrow>
      unat (btnTime (after (PollState13 h r s))) = unat (btnTime s) + 1) \<and>
   (ButtonPressed r \<and> unat (btnTime t) < 65535 \<longrightarrow>
      unat (btnTime (after (PollState10 h' r t))) = unat (btnTime t) + 1) \<and>
   0 \<le> uint (btnTime (after (PollState13 h r s))) \<and>
   0 \<le> uint (btnTime (after (PollState10 h' r t)))"
  by (simp add: btnTime_PollState13 btnTime_PollState10 unat_inc)

theorem C7_ButtonHoldCounter_witness:
  "ButtonPressed (0, 0) \<and>
   unat (btnTime (sample13 1 41 7)) < 65535 \<and>
   unat (btnTime (after (PollState13 sample_iotn13 (0, 0) (sample13 1 41 7)))) = 42 \<and>
   unat (btnTime (after (PollState10 sample_iotn10 (0, 0) (sample10 1 41 7)))) = 42 \<and>
   \<not> ButtonPressed (1, 0) \<and>
   btnTime (after (PollState13 sample_iotn13 (1, 0) (sample13 1 41 7))) = 0 \<and>
   btnTime (after (PollState10 sample_iotn10 (1, 0) (sample10 1 41 7))) = 0"
  using
    C7_ButtonHoldCounter [of "(0, 0)" sample_iotn13 "sample13 1 41 7" sample_iotn10
      "sample10 1 41 7"]
    C7_ButtonHoldCounter [of "(1, 0)" sample_iotn13 "sample13 1 41 7" sample_iotn10
      "sample10 1 41 7"]
  by (simp add: ButtonPressed_def BIT_def GPI_BUTTON_def)

text \<open>At 65535 the increment wraps: a button held for 65536 cycles counts as just pressed.\<close>

lemma btnTime_overflow:
  "ButtonPressed r \<Longrightarrow> btnTime s = 65535 \<Longrightarrow> btnTime t = 65535 \<Longrightarrow>
   btnTime (after (PollState13 h r s)) = 0 \<and> btnTime (after (PollState10 h' r t)) = 0"
  by (simp add: btnTime_PollState13 btnTime_PollState10)

subsection \<open>The repeated button signal in state On\<close>

text \<open>
  C8: in state On, in a cycle in which the host requests power and the button-hold counter
  (after its update) is between 1 and \<open>4 * DELAY_1S_CNT\<close>, the machine stays in On and the
  button line to the host is driven low; in a cycle in which the button reads released
  the counter is back to 0 and the line is high impedance. Both variants.
\<close>

theorem C8_host_button_repeat:
  "(pwrCtrlState s = PWR_STATE_on \<and> HostPowerRequest r \<and>
    1 \<le> unat (btnTime (after (PollState13 h r s))) \<and>
    unat (btnTime (after (PollState13 h r s))) \<le> 4 * DELAY_1S_CNT \<longrightarrow>
      (\<exists>s'. PollState13 h r s = Return s' \<and> pwrCtrlState s' = PWR_STATE_on \<and>
            HostButtonSignal s' = DrivenLow)) \<and>
   (pwrCtrlState s = PWR_STATE_on \<and> \<not> ButtonPressed r \<longrightarrow>
      btnTime (after (PollState13 h r s)) = 0 \<and>
      HostButtonSignal (after (PollState13 h r s)) = HighImpedance) \<and>
   (pwrCtrlState t = PWR_STATE_on \<and> HostPowerRequest r \<and>
    1 \<le> unat (btnTime (after (PollState10 h' r t))) \<and>
    unat (btnTime (after (PollState10 h' r t))) \<le> 4 * DELAY_1S_CNT \<longrightarrow>
      (\<exists>t'. PollState10 h' r t = Return t' \<and> pwrCtrlState t' = PWR_STATE_on \<and>
            HostButtonSignal t' = DrivenLow)) \<and>
   (pwrCtrlState t = PWR_STATE_on \<and> \<not> ButtonPressed r \<longrightarrow>
      btnTime (after (PollState10 h' r t)) = 0 \<and>
      HostButtonSignal (after (PollState10 h' r t)) = HighImpedance)"
  by (simp add: PollState13_def PollState10_def Let_def signal_defs PWR_STATE_defs
      BIT_set BIT_clear BIT_pins)

theorem C8_host_button_repeat_witness:
  "pwrCtrlState (sample13 1 339 7) = PWR_STATE_on \<and> HostPowerRequest (4, 4) \<and>
   unat (btnTime (after (PollState13 sample_iotn13 (4, 4) (sample13 1 339 7)))) = 340 \<and>
   4 * DELAY_1S_CNT = 340 \<and>
   (\<exists>s'. PollState13 sample_iotn13 (4, 4) (sample13 1 339 7) = Return s' \<and>
         pwrCtrlState s' = PWR_STATE_on \<and> HostButtonSignal s' = DrivenLow) \<and>
   (\<exists>t'. PollState10 sample_iotn10 (4, 4) (sample10 1 339 7) = Return t' \<and>
         pwrCtrlState t' = PWR_STATE_on \<and> HostButtonSignal t' = DrivenLow) \<and>
   \<not> ButtonPressed (5, 5) \<and>
   HostButtonSignal (after (PollState13 sample_iotn13 (5, 5) (sample13 1 339 7))) =
     HighImpedance \<and>
   HostButtonSignal (after (PollState10 sample_iotn10 (5, 5) (sample10 1 339 7))) =
     HighImpedance"
  using
    C8_host_button_repeat [of "sample13 1 339 7" "(4, 4)" sample_iotn13 "sample10 1 339 7"
      sample_iotn10]
    C8_host_button_repeat [of "sample13 1 339 7" "(5, 5)" sample_iotn13 "sample10 1 339 7"
      sample_iotn10]
  by (simp add: btnTime_PollState13 btnTime_PollState10 signal_defs pin_defs PWR_STATE_defs
      DELAY_1S_CNT_def)

subsection \<open>The settle time in state TurningOff\<close>

text \<open>
  C10: in state TurningOff (\<^verbatim>\<open>PWR_STATE_on_off\<close>), in a cycle in which the idle counter
  after its increment is at most \<open>3 * DELAY_1S_CNT\<close>, \<^verbatim>\<open>PollState\<close> returns and has changed
  nothing but the two counters: the state variable, the power output, the button line and
  every other register are as before. Both variants.
\<close>

theorem C10_TurningOff_frame:
  "(pwrCtrlState s = PWR_STATE_on_off \<and> unat (waitTimer s + 1) \<le> 3 * DELAY_1S_CNT \<longrightarrow>
      PollState13 h r s =
        Return (s\<lparr>btnTime := (if ButtonPressed r then btnTime s + 1 else 0),
                  waitTimer := waitTimer s + 1\<rparr>)) \<and>
   (pwrCtrlState t = PWR_STATE_on_off \<and> unat (waitTimer t + 1) \<le> 3 * DELAY_1S_CNT \<longrightarrow>
      PollState10 h' r t =
        Return (t\<lparr>btnTime := (if ButtonPressed r then btnTime t + 1 else 0),
                  waitTimer := waitTimer t + 1\<rparr>))"
  by (simp add: PollState13_def PollState10_def Let_def ButtonPressed_def PWR_STATE_defs)

theorem C10_TurningOff_frame_witness:
  "pwrCtrlState (sample13 2 0 254) = PWR_STATE_on_off \<and>
   unat (waitTimer (sample13 2 0 254) + 1) \<le> 3 * DELAY_1S_CNT \<and>
   PollState13 sample_iotn13 (0, 4) (sample13 2 0 254) = Return (sample13 2 1 255) \<and>
   pwrCtrlState (sample10 2 0 254) = PWR_STATE_on_off \<and>
   unat (waitTimer (sample10 2 0 254) + 1) \<le> 3 * DELAY_1S_CNT \<and>
   PollState10 sample_iotn10 (0, 4) (sample10 2 0 254) = Return (sample10 2 1 255)"
  using C10_TurningOff_frame [of "sample13 2 0 254" sample_iotn13 "(0, 4)" "sample10 2 0 254"
      sample_iotn10]
  by (simp add: PWR_STATE_defs DELAY_1S_CNT_def ButtonPressed_def BIT_def GPI_BUTTON_def)

subsection \<open>The two variants\<close>

lemma views_agree:
  assumes "view s = view t"
  shows "view_outcome (PollState13 h r s) = view_outcome (PollState10 h' r t)"
  using assms
  by (simp add: PollState13_def PollState10_def Let_def view_def PowerOutputEnabled_def
      HostButtonSignal_def BIT_clear BIT_set)

text \<open>
  C4: the state machines of the two variants are functionally identical. From machine
  states with the same state variable, counters and logical outputs, and on the same pin
  reads, a cycle of the ATTINY13 \<^verbatim>\<open>PollState\<close> and a cycle of the ATTINY10 \<^verbatim>\<open>PollState\<close> end the
  same way (both return or both go to sleep) with the same state variable, the same
  counters and the same logical outputs. The variants differ in the names and bits of the
  sleep registers and in the wait for the reset (20 and 30 ms), which the view leaves out.
\<close>

theorem C4_variants_agree:
  "view s = view t \<Longrightarrow>
   view_outcome (PollState13 h r s) = view_outcome (PollState10 h' r t)"
  by (rule views_agree)

theorem C4_variants_agree_witness:
  "view (sample13 1 340 7) = view (sample10 1 340 7) \<and>
   view_outcome (PollState13 sample_iotn13 (4, 4) (sample13 1 340 7)) =
   view_outcome (PollState10 sample_iotn10 (4, 4) (sample10 1 340 7)) \<and>
   view_outcome (PollState10 sample_iotn10 (4, 4) (sample10 1 340 7)) =
     (False, 2, 341, 0, False, HighImpedance)"
  using C4_variants_agree [of "sample13 1 340 7" "sample10 1 340 7" sample_iotn13 "(4, 4)"
      sample_iotn10]
  by (simp add: view_def signal_defs pin_defs PollState10_def Let_def PWR_STATE_defs
      DELAY_1S_CNT_def)

section \<open>Properties of runs of the polling loop\<close>

subsection \<open>Counting cycles up to a threshold\<close>

lemma PollLoop_append:
  "PollLoop step (xs @ ys) s =
     (case PollLoop step xs s of
        Return s' \<Rightarrow> PollLoop step ys s'
      | Sleep_Reset s' ms \<Rightarrow> Sleep_Reset s' ms)"
  by (induction xs arbitrary: s) (auto split: outcome.splits)

lemma PollLoop_counting:
  assumes one: "\<And>r s. P r \<Longrightarrow> I s \<Longrightarrow> k s < N \<Longrightarrow>
                  \<exists>s'. step r s = Return s' \<and> I s' \<and> k s' = k s + 1"
  shows "I s \<Longrightarrow> \<forall>r\<in>set rs. P r \<Longrightarrow> k s + length rs \<le> N \<Longrightarrow>
         \<exists>s'. PollLoop step rs s = Return s' \<and> I s' \<and> k s' = k s + length rs"
proof (induction rs arbitrary: s)
  case Nil
  then show ?case by simp
next
  case (Cons r rs)
  from Cons.prems have "P r" and "k s < N"
    by simp_all
  with one Cons.prems(1) obtain s1 where s1: "step r s = Return s1" "I s1" "k s1 = k s + 1"
    by blast
  from Cons.prems s1 have "\<forall>r\<in>set rs. P r" and "k s1 + length rs \<le> N"
    by simp_all
  with Cons.IH [OF s1(2)] obtain s' where
    "PollLoop step rs s1 = Return s'" "I s'" "k s' = k s1 + length rs"
    by blast
  with s1 show ?case
    by simp
qed

lemma PollLoop_threshold:
  assumes one: "\<And>r s. P r \<Longrightarrow> I s \<Longrightarrow> k s < N \<Longrightarrow>
                  \<exists>s'. step r s = Return s' \<and> I s' \<and> k s' = k s + 1"
    and last: "\<And>r s. P r \<Longrightarrow> I s \<Longrightarrow> k s = N \<Longrightarrow> \<exists>s'. step r s = Return s' \<and> Q s'"
    and init: "I s" "k s = 0"
    and len: "length rs = N + 1"
    and inputs: "\<forall>r\<in>set rs. P r"
  shows "(\<forall>n\<le>N. \<exists>s'. PollLoop step (take n rs) s = Return s' \<and> I s') \<and>
         (\<exists>s'. PollLoop step rs s = Return s' \<and> Q s')"
proof (intro conjI allI impI)
  fix n assume n: "n \<le> N"
  from inputs have "\<forall>r\<in>set (take n rs). P r"
    by (meson in_set_takeD)
  moreover from n init have "k s + length (take n rs) \<le> N"
    by simp
  ultimately show "\<exists>s'. PollLoop step (take n rs) s = Return s' \<and> I s'"
    using PollLoop_counting [of P I k N step, OF one init(1)] by blast
next
  from len have "rs \<noteq> []"
    by auto
  then have rs: "rs = butlast rs @ [last rs]" and r: "last rs \<in> set rs"
    by simp_all
  from inputs have "\<forall>r\<in>set (butlast rs). P r"
    by (meson in_set_butlastD)
  moreover from len init have "k s + length (butlast rs) \<le> N"
    by simp
  ultimately obtain s1 where
    s1: "PollLoop step (butlast rs) s = Return s1" "I s1" "k s1 = k s + length (butlast rs)"
    using PollLoop_counting [of P I k N step, OF one init(1)] by blast
  from s1(3) len init have "k s1 = N"
    by simp
  with last [of "last rs" s1] inputs r s1(2) obtain s' where
    "step (last rs) s1 = Return s'" "Q s'"
    by blast
  with s1(1) have "PollLoop step (butlast rs @ [last rs]) s = Return s' \<and> Q s'"
    by (simp add: PollLoop_append)
  with rs show "\<exists>s'. PollLoop step rs s = Return s' \<and> Q s'"
    by metis
qed

subsection \<open>Idle in state Off\<close>

lemma Off_idle_step13:
  assumes "\<not> ButtonPressed r \<and> \<not> HostPowerRequest r" "pwrCtrlState s = PWR_STATE_off"
    "unat (waitTimer s) < 10 * DELAY_1S_CNT"
  shows "\<exists>s'. PollState13 h r s = Return s' \<and> pwrCtrlState s' = PWR_STATE_off \<and>
      unat (waitTimer s') = unat (waitTimer s) + 1"
  using assms
  by (simp add: PollState13_def Let_def signal_defs PWR_STATE_defs unat_inc DELAY_1S_CNT_def)

lemma Off_idle_last13:
  assumes "\<not> ButtonPressed r \<and> \<not> HostPowerRequest r" "pwrCtrlState s = PWR_STATE_off"
    "unat (waitTimer s) = 10 * DELAY_1S_CNT"
  shows "\<exists>s'. PollState13 h r s = Return s' \<and> pwrCtrlState s' = PWR_STATE_on_off \<and>
      \<not> PowerOutputEnabled s'"
  using assms
  by (simp add: PollState13_def Let_def signal_defs PWR_STATE_defs unat_inc DELAY_1S_CNT_def
      BIT_set BIT_pins)

lemma Off_idle_step10:
  assumes "\<not> ButtonPressed r \<and> \<not> HostPowerRequest r" "pwrCtrlState s = PWR_STATE_off"
    "unat (waitTimer s) < 10 * DELAY_1S_CNT"
  shows "\<exists>s'. PollState10 h r s = Return s' \<and> pwrCtrlState s' = PWR_STATE_off \<and>
      unat (waitTimer s') = unat (waitTimer s) + 1"
  using assms
  by (simp add: PollState10_def Let_def signal_defs PWR_STATE_defs unat_inc DELAY_1S_CNT_def)

lemma Off_idle_last10:
  assumes "\<not> ButtonPressed r \<and> \<not> HostPowerRequest r" "pwrCtrlState s = PWR_STATE_off"
    "unat (waitTimer s) = 10 * DELAY_1S_CNT"
  shows "\<exists>s'. PollState10 h r s = Return s' \<and> pwrCtrlState s' = PWR_STATE_on_off \<and>
      \<not> PowerOutputEnabled s'"
  using assms
  by (simp add: PollState10_def Let_def signal_defs PWR_STATE_defs unat_inc DELAY_1S_CNT_def
      BIT_set BIT_pins)

text \<open>
  C6: start in state Off with the idle counter at 0, as it is whenever state Off is entered
  (the state is only entered by \<^verbatim>\<open>main\<close> after a reset), and run \<open>10 * DELAY_1S_CNT + 1\<close>
  cycles in each of which the button reads released and the host does not request power.
  Then the machine is still in Off after each of the first \<open>10 * DELAY_1S_CNT\<close> cycles,
  and after the last one it is in TurningOff (\<^verbatim>\<open>PWR_STATE_on_off\<close>) with the power output
  disabled. Both variants.
\<close>

theorem C6_idle_auto_off:
  assumes "length rs = 10 * DELAY_1S_CNT + 1"
    and "\<forall>r\<in>set rs. \<not> ButtonPressed r \<and> \<not> HostPowerRequest r"
  shows "(pwrCtrlState s = PWR_STATE_off \<and> waitTimer s = 0 \<longrightarrow>
           (\<forall>n\<le>10 * DELAY_1S_CNT. \<exists>s'. PollLoop (PollState13 h) (take n rs) s = Return s' \<and>
               pwrCtrlState s' = PWR_STATE_off) \<and>
           (\<exists>s'. PollLoop (PollState13 h) rs s = Return s' \<and>
               pwrCtrlState s' = PWR_STATE_on_off \<and> \<not> PowerOutputEnabled s')) \<and>
         (pwrCtrlState t = PWR_STATE_off \<and> waitTimer t = 0 \<longrightarrow>
           (\<forall>n\<le>10 * DELAY_1S_CNT. \<exists>t'. PollLoop (PollState10 h') (take n rs) t = Return t' \<and>
               pwrCtrlState t' = PWR_STATE_off) \<and>
           (\<exists>t'. PollLoop (PollState10 h') rs t = Return t' \<and>
               pwrCtrlState t' = PWR_STATE_on_off \<and> \<not> PowerOutputEnabled t'))"
proof (rule conjI; rule impI; elim conjE)
  assume "pwrCtrlState s = PWR_STATE_off" "waitTimer s = 0"
  then have init: "pwrCtrlState s = PWR_STATE_off" "unat (waitTimer s) = 0"
    by simp_all
  from PollLoop_threshold [of "\<lambda>r. \<not> ButtonPressed r \<and> \<not> HostPowerRequest r"
      "\<lambda>s. pwrCtrlState s = PWR_STATE_off" "\<lambda>s. unat (waitTimer s)" "10 * DELAY_1S_CNT"
      "PollState13 h" "\<lambda>s. pwrCtrlState s = PWR_STATE_on_off \<and> \<not> PowerOutputEnabled s",
      OF Off_idle_step13 Off_idle_last13 init assms]
  show "(\<forall>n\<le>10 * DELAY_1S_CNT. \<exists>s'. PollLoop (PollState13 h) (take n rs) s = Return s' \<and>
               pwrCtrlState s' = PWR_STATE_off) \<and>
           (\<exists>s'. PollLoop (PollState13 h) rs s = Return s' \<and>
               pwrCtrlState s' = PWR_STATE_on_off \<and> \<not> PowerOutputEnabled s')"
    .
next
  assume "pwrCtrlState t = PWR_STATE_off" "waitTimer t = 0"
  then have init: "pwrCtrlState t = PWR_STATE_off" "unat (waitTimer t) = 0"
    by simp_all
  from PollLoop_threshold [of "\<lambda>r. \<not> ButtonPressed r \<and> \<not> HostPowerRequest r"
      "\<lambda>s. pwrCtrlState s = PWR_STATE_off" "\<lambda>s. unat (waitTimer s)" "10 * DELAY_1S_CNT"
      "PollState10 h'" "\<lambda>s. pwrCtrlState s = PWR_STATE_on_off \<and> \<not> PowerOutputEnabled s",
      OF Off_idle_step10 Off_idle_last10 init assms]
  show "(\<forall>n\<le>10 * DELAY_1S_CNT. \<exists>t'. PollLoop (PollState10 h') (take n rs) t = Return t' \<and>
               pwrCtrlState t' = PWR_STATE_off) \<and>
           (\<exists>t'. PollLoop (PollState10 h') rs t = Return t' \<and>
               pwrCtrlState t' = PWR_STATE_on_off \<and> \<not> PowerOutputEnabled t')"
    .
qed


theorem C6_idle_auto_off_witness:
  "length (replicate 851 (1 :: 8 word, 0 :: 8 word)) = 10 * DELAY_1S_CNT + 1 \<and>
   pwrCtrlState (main_init13 (sample13 0 0 0)) = PWR_STATE_off \<and>
   waitTimer (main_init13 (sample13 0 0 0)) = 0 \<and>
   pwrCtrlState (main_init10 (sample10 0 0 0)) = PWR_STATE_off \<and>
   waitTimer (main_init10 (sample10 0 0 0)) = 0 \<and>
   \<not> ButtonPressed (1, 0) \<and> \<not> HostPowerRequest (1, 0) \<and>
   (\<exists>s'. PollLoop (PollState13 sample_iotn13) (replicate 851 (1, 0))
            (main_init13 (sample13 0 0 0)) = Return s' \<and>
         pwrCtrlState s' = PWR_STATE_on_off \<and> \<not> PowerOutputEnabled s') \<and>
   (\<exists>t'. PollLoop (PollState10 sample_iotn10) (replicate 851 (1, 0))
            (main_init10 (sample10 0 0 0)) = Return t' \<and>
         pwrCtrlState t' = PWR_STATE_on_off \<and> \<not> PowerOutputEnabled t')"
proof -
  have len: "length (replicate 851 (1 :: 8 word, 0 :: 8 word)) = 10 * DELAY_1S_CNT + 1"
    by (simp add: DELAY_1S_CNT_def)
  have quiet: "\<not> ButtonPressed (1, 0) \<and> \<not> HostPowerRequest (1, 0)"
    by (simp add: signal_defs pin_defs)
  then have all: "\<forall>r\<in>set (replicate 851 (1 :: 8 word, 0 :: 8 word)).
      \<not> ButtonPressed r \<and> \<not> HostPowerRequest r"
    by (simp only: set_replicate_conv_if split: if_splits) simp
  have s: "pwrCtrlState (main_init13 (sample13 0 0 0)) = PWR_STATE_off \<and>
      waitTimer (main_init13 (sample13 0 0 0)) = 0"
    by (simp add: main_init13_def PWR_STATE_defs)
  have t: "pwrCtrlState (main_init10 (sample10 0 0 0)) = PWR_STATE_off \<and>
      waitTimer (main_init10 (sample10 0 0 0)) = 0"
    by (simp add: main_init10_def PWR_STATE_defs)
  from C6_idle_auto_off [OF len all, of "main_init13 (sample13 0 0 0)" sample_iotn13
      "main_init10 (sample10 0 0 0)" sample_iotn10] s t len quiet
  show ?thesis
    by blast
qed


subsection \<open>A long hold in state On\<close>

lemma On_hold_step13:
  assumes "ButtonPressed r \<and> HostPowerRequest r" "pwrCtrlState s = PWR_STATE_on"
    "unat (btnTime s) < 4 * DELAY_1S_CNT"
  shows "\<exists>s'. PollState13 h r s = Return s' \<and> pwrCtrlState s' = PWR_STATE_on \<and>
      unat (btnTime s') = unat (btnTime s) + 1"
  using assms
  by (simp add: PollState13_def Let_def signal_defs PWR_STATE_defs unat_inc DELAY_1S_CNT_def)

lemma On_hold_last13:
  assumes "ButtonPressed r \<and> HostPowerRequest r" "pwrCtrlState s = PWR_STATE_on"
    "unat (btnTime s) = 4 * DELAY_1S_CNT"
  shows "\<exists>s'. PollState13 h r s = Return s' \<and> pwrCtrlState s' = PWR_STATE_on_off \<and>
      \<not> PowerOutputEnabled s' \<and> HostButtonSignal s' = HighImpedance \<and> waitTimer s' = 0"
  using assms
  by (simp add: PollState13_def Let_def signal_defs PWR_STATE_defs unat_inc DELAY_1S_CNT_def
      BIT_set BIT_clear BIT_pins)

lemma On_hold_step10:
  assumes "ButtonPressed r \<and> HostPowerRequest r" "pwrCtrlState s = PWR_STATE_on"
    "unat (btnTime s) < 4 * DELAY_1S_CNT"
  shows "\<exists>s'. PollState10 h r s = Return s' \<and> pwrCtrlState s' = PWR_STATE_on \<and>
      unat (btnTime s') = unat (btnTime s) + 1"
  using assms
  by (simp add: PollState10_def Let_def signal_defs PWR_STATE_defs unat_inc DELAY_1S_CNT_def)

lemma On_hold_last10:
  assumes "ButtonPressed r \<and> HostPowerRequest r" "pwrCtrlState s = PWR_STATE_on"
    "unat (btnTime s) = 4 * DELAY_1S_CNT"
  shows "\<exists>s'. PollState10 h r s = Return s' \<and> pwrCtrlState s' = PWR_STATE_on_off \<and>
      \<not> PowerOutputEnabled s' \<and> HostButtonSignal s' = HighImpedance \<and> waitTimer s' = 0"
  using assms
  by (simp add: PollState10_def Let_def signal_defs PWR_STATE_defs unat_inc DELAY_1S_CNT_def
      BIT_set BIT_clear BIT_pins)

text \<open>
  C3: start in state On with the button-hold counter at 0, and run \<open>4 * DELAY_1S_CNT + 1\<close>
  cycles in each of which the button reads pressed and the host requests power. Then the
  machine is still in On after each of the first \<open>4 * DELAY_1S_CNT\<close> cycles, and after
  the last one it is in TurningOff with the power output disabled, the button line to the
  host at high impedance and the idle counter reset to 0: the long hold overrides the
  host's request. Both variants.
\<close>

theorem C3_long_hold_powers_off:
  assumes "length rs = 4 * DELAY_1S_CNT + 1"
    and "\<forall>r\<in>set rs. ButtonPressed r \<and> HostPowerRequest r"
  shows "(pwrCtrlState s = PWR_STATE_on \<and> btnTime s = 0 \<longrightarrow>
           (\<forall>n\<le>4 * DELAY_1S_CNT. \<exists>s'. PollLoop (PollState13 h) (take n rs) s = Return s' \<and>
               pwrCtrlState s' = PWR_STATE_on) \<and>
           (\<exists>s'. PollLoop (PollState13 h) rs s = Return s' \<and>
               pwrCtrlState s' = PWR_STATE_on_off \<and> \<not> PowerOutputEnabled s' \<and>
               HostButtonSignal s' = HighImpedance \<and> waitTimer s' = 0)) \<and>
         (pwrCtrlState t = PWR_STATE_on \<and> btnTime t = 0 \<longrightarrow>
           (\<forall>n\<le>4 * DELAY_1S_CNT. \<exists>t'. PollLoop (PollState10 h') (take n rs) t = Return t' \<and>
               pwrCtrlState t' = PWR_STATE_on) \<and>
           (\<exists>t'. PollLoop (PollState10 h') rs t = Return t' \<and>
               pwrCtrlState t' = PWR_STATE_on_off \<and> \<not> PowerOutputEnabled t' \<and>
               HostButtonSignal t' = HighImpedance \<and> waitTimer t' = 0))"
proof (rule conjI; rule impI; elim conjE)
  assume "pwrCtrlState s = PWR_STATE_on" "btnTime s = 0"
  then have init: "pwrCtrlState s = PWR_STATE_on" "unat (btnTime s) = 0"
    by simp_all
  from PollLoop_threshold [of "\<lambda>r. ButtonPressed r \<and> HostPowerRequest r"
      "\<lambda>s. pwrCtrlState s = PWR_STATE_on" "\<lambda>s. unat (btnTime s)" "4 * DELAY_1S_CNT"
      "PollState13 h"
      "\<lambda>s. pwrCtrlState s = PWR_STATE_on_off \<and> \<not> PowerOutputEnabled s \<and>
           HostButtonSignal s = HighImpedance \<and> waitTimer s = 0",
      OF On_hold_step13 On_hold_last13 init assms]
  show "(\<forall>n\<le>4 * DELAY_1S_CNT. \<exists>s'. PollLoop (PollState13 h) (take n rs) s = Return s' \<and>
               pwrCtrlState s' = PWR_STATE_on) \<and>
           (\<exists>s'. PollLoop (PollState13 h) rs s = Return s' \<and>
               pwrCtrlState s' = PWR_STATE_on_off \<and> \<not> PowerOutputEnabled s' \<and>
               HostButtonSignal s' = HighImpedance \<and> waitTimer s' = 0)"
    .
next
  assume "pwrCtrlState t = PWR_STATE_on" "btnTime t = 0"
  then have init: "pwrCtrlState t = PWR_STATE_on" "unat (btnTime t) = 0"
    by simp_all
  from PollLoop_threshold [of "\<lambda>r. ButtonPressed r \<and> HostPowerRequest r"
      "\<lambda>s. pwrCtrlState s = PWR_STATE_on" "\<lambda>s. unat (btnTime s)" "4 * DELAY_1S_CNT"
      "PollState10 h'"
      "\<lambda>s. pwrCtrlState s = PWR_STATE_on_off \<and> \<not> PowerOutputEnabled s \<and>
           HostButtonSignal s = HighImpedance \<and> waitTimer s = 0",
      OF On_hold_step10 On_hold_last10 init assms]
  show "(\<forall>n\<le>4 * DELAY_1S_CNT. \<exists>t'. PollLoop (PollState10 h') (take n rs) t = Return t' \<and>
               pwrCtrlState t' = PWR_STATE_on) \<and>
           (\<exists>t'. PollLoop (PollState10 h') rs t = Return t' \<and>
               pwrCtrlState t' = PWR_STATE_on_off \<and> \<not> PowerOutputEnabled t' \<and>
               HostButtonSignal t' = HighImpedance \<and> waitTimer t' = 0)"
    .
qed

theorem C3_long_hold_powers_off_witness:
  "length (replicate 341 (4 :: 8 word, 4 :: 8 word)) = 4 * DELAY_1S_CNT + 1 \<and>
   ButtonPressed (4, 4) \<and> HostPowerRequest (4, 4) \<and>
   pwrCtrlState (sample13 1 0 7) = PWR_STATE_on \<and> btnTime (sample13 1 0 7) = 0 \<and>
   pwrCtrlState (sample10 1 0 7) = PWR_STATE_on \<and> btnTime (sample10 1 0 7) = 0 \<and>
   (\<exists>s'. PollLoop (PollState13 sample_iotn13) (replicate 341 (4, 4)) (sample13 1 0 7) =
           Return s' \<and>
         pwrCtrlState s' = PWR_STATE_on_off \<and> \<not> PowerOutputEnabled s' \<and>
         HostButtonSignal s' = HighImpedance \<and> waitTimer s' = 0) \<and>
   (\<exists>t'. PollLoop (PollState10 sample_iotn10) (replicate 341 (4, 4)) (sample10 1 0 7) =
           Return t' \<and>
         pwrCtrlState t' = PWR_STATE_on_off \<and> \<not> PowerOutputEnabled t' \<and>
         HostButtonSignal t' = HighImpedance \<and> waitTimer t' = 0)"
proof -
  have len: "length (replicate 341 (4 :: 8 word, 4 :: 8 word)) = 4 * DELAY_1S_CNT + 1"
    by (simp add: DELAY_1S_CNT_def)
  have held: "ButtonPressed (4, 4) \<and> HostPowerRequest (4, 4)"
    by (simp add: signal_defs pin_defs)
  then have all: "\<forall>r\<in>set (replicate 341 (4 :: 8 word, 4 :: 8 word)).
      ButtonPressed r \<and> HostPowerRequest r"
    by (simp only: set_replicate_conv_if split: if_splits) simp
  have s: "pwrCtrlState (sample13 1 0 7) = PWR_STATE_on \<and> btnTime (sample13 1 0 7) = 0"
    by (simp add: PWR_STATE_defs)
  have t: "pwrCtrlState (sample10 1 0 7) = PWR_STATE_on \<and> btnTime (sample10 1 0 7) = 0"
    by (simp add: PWR_STATE_defs)
  from C3_long_hold_powers_off [OF len all, of "sample13 1 0 7" sample_iotn13
      "sample10 1 0 7" sample_iotn10] s t len held
  show ?thesis
    by blast
qed

subsection \<open>The button line to the host\<close>

lemma HostButton_inv_PollState13:
  "HostButton_inv s \<Longrightarrow> HostButton_inv (after (PollState13 h r s))"
  by (simp add: PollState13_def Let_def HostButton_inv_def HostButtonSignal_def PWR_STATE_defs
      BIT_clear unat_gt_0 split: if_splits)

lemma HostButton_inv_PollState10:
  "HostButton_inv s \<Longrightarrow> HostButton_inv (after (PollState10 h r s))"
  by (simp add: PollState10_def Let_def HostButton_inv_def HostButtonSignal_def PWR_STATE_defs
      BIT_clear unat_gt_0 split: if_splits)

lemma HostButton_inv_reach13:
  assumes "reach (PollState13 h) init s" "HostButton_inv init"
  shows "HostButton_inv s"
  using assms
proof (induction rule: reach.induct)
  case reach_init
  then show ?case by simp
next
  case (reach_step s r s')
  with HostButton_inv_PollState13 [of s h r] show ?case
    by simp
qed

lemma HostButton_inv_reach10:
  assumes "reach (PollState10 h) init s" "HostButton_inv init"
  shows "HostButton_inv s"
  using assms
proof (induction rule: reach.induct)
  case reach_init
  then show ?case by simp
next
  case (reach_step s r s')
  with HostButton_inv_PollState10 [of s h r] show ?case
    by simp
qed

lemma BIT_power_button:
  "(w OR BIT GPO_PWR) AND BIT GPIO_CPU_BUTTON = w AND BIT GPIO_CPU_BUTTON"
  by (simp add: pin_defs bit.conj_disj_distrib2)

lemma HostButton_inv_main_init13:
  "HostButtonSignal hw = HighImpedance \<Longrightarrow> HostButton_inv (main_init13 hw)"
  by (simp add: HostButton_inv_def HostButtonSignal_def main_init13_def BIT_power_button
      split: if_splits)

lemma HostButton_inv_main_init10:
  "HostButtonSignal hw = HighImpedance \<Longrightarrow> HostButton_inv (main_init10 hw)"
  by (simp add: HostButton_inv_def HostButtonSignal_def main_init10_def BIT_power_button
      split: if_splits)

text \<open>
  C9: let the reset leave the direction bit of the button line cleared, so that the line
  is at high impedance when \<^verbatim>\<open>main\<close> starts. Then in every state that the polling loop
  reaches from \<^verbatim>\<open>main\<close>'s initial state, and in the state in which a further cycle ends
  (returning or going to sleep), the line is driven low only if the state is On and the
  button-hold counter is not 0; in states Off and TurningOff it is at high impedance. Both
  variants.
\<close>

theorem C9_HostButton_invariant:
  "(HostButtonSignal hw = HighImpedance \<and> reach (PollState13 h) (main_init13 hw) s \<longrightarrow>
      HostButton_inv s \<and> HostButton_inv (after (PollState13 h r s)) \<and>
      (pwrCtrlState s = PWR_STATE_off \<or> pwrCtrlState s = PWR_STATE_on_off \<longrightarrow>
         HostButtonSignal s = HighImpedance)) \<and>
   (HostButtonSignal hw' = HighImpedance \<and> reach (PollState10 h') (main_init10 hw') t \<longrightarrow>
      HostButton_inv t \<and> HostButton_inv (after (PollState10 h' r t)) \<and>
      (pwrCtrlState t = PWR_STATE_off \<or> pwrCtrlState t = PWR_STATE_on_off \<longrightarrow>
         HostButtonSignal t = HighImpedance))"
proof (rule conjI; rule impI; elim conjE)
  assume "HostButtonSignal hw = HighImpedance" "reach (PollState13 h) (main_init13 hw) s"
  then have inv: "HostButton_inv s"
    using HostButton_inv_reach13 HostButton_inv_main_init13 by blast
  then have "HostButton_inv (after (PollState13 h r s))"
    by (rule HostButton_inv_PollState13)
  moreover from inv have "pwrCtrlState s = PWR_STATE_off \<or> pwrCtrlState s = PWR_STATE_on_off \<longrightarrow>
         HostButtonSignal s = HighImpedance"
    by (cases "HostButtonSignal s") (auto simp: HostButton_inv_def PWR_STATE_defs)
  ultimately show "HostButton_inv s \<and> HostButton_inv (after (PollState13 h r s)) \<and>
      (pwrCtrlState s = PWR_STATE_off \<or> pwrCtrlState s = PWR_STATE_on_off \<longrightarrow>
         HostButtonSignal s = HighImpedance)"
    using inv by blast
next
  assume "HostButtonSignal hw' = HighImpedance" "reach (PollState10 h') (main_init10 hw') t"
  then have inv: "HostButton_inv t"
    using HostButton_inv_reach10 HostButton_inv_main_init10 by blast
  then have "HostButton_inv (after (PollState10 h' r t))"
    by (rule HostButton_inv_PollState10)
  moreover from inv have "pwrCtrlState t = PWR_STATE_off \<or> pwrCtrlState t = PWR_STATE_on_off \<longrightarrow>
         HostButtonSignal t = HighImpedance"
    by (cases "HostButtonSignal t") (auto simp: HostButton_inv_def PWR_STATE_defs)
  ultimately show "HostButton_inv t \<and> HostButton_inv (after (PollState10 h' r t)) \<and>
      (pwrCtrlState t = PWR_STATE_off \<or> pwrCtrlState t = PWR_STATE_on_off \<longrightarrow>
         HostButtonSignal t = HighImpedance)"
    using inv by blast
qed


theorem C9_HostButton_invariant_witness:
  "HostButtonSignal (sample13 0 0 0) = HighImpedance \<and>
   reach (PollState13 sample_iotn13) (main_init13 (sample13 0 0 0))
     ((sample13 1 1 1)\<lparr>PORTB := 1\<rparr>) \<and>
   HostButton_inv ((sample13 1 1 1)\<lparr>PORTB := 1\<rparr>) \<and>
   HostButton_inv (after (PollState13 sample_iotn13 (4, 4) ((sample13 1 1 1)\<lparr>PORTB := 1\<rparr>))) \<and>
   HostButtonSignal (sample10 0 0 0) = HighImpedance \<and>
   reach (PollState10 sample_iotn10) (main_init10 (sample10 0 0 0))
     ((sample10 1 1 1)\<lparr>PORTB := 0\<rparr>) \<and>
   HostButton_inv ((sample10 1 1 1)\<lparr>PORTB := 0\<rparr>) \<and>
   HostButton_inv (after (PollState10 sample_iotn10 (4, 4) ((sample10 1 1 1)\<lparr>PORTB := 0\<rparr>)))"
proof -
  have hw: "HostButtonSignal (sample13 0 0 0) = HighImpedance"
    "HostButtonSignal (sample10 0 0 0) = HighImpedance"
    by (simp_all add: HostButtonSignal_def pin_defs)
  have r13: "reach (PollState13 sample_iotn13) (main_init13 (sample13 0 0 0))
     ((sample13 1 1 1)\<lparr>PORTB := 1\<rparr>)"
    by (rule reach_step [OF reach_init, of _ "(4, 4)"])
      (simp add: PollState13_def main_init13_def Let_def pin_defs PWR_STATE_defs
        DELAY_1S_CNT_def)
  have r10: "reach (PollState10 sample_iotn10) (main_init10 (sample10 0 0 0))
     ((sample10 1 1 1)\<lparr>PORTB := 0\<rparr>)"
    by (rule reach_step [OF reach_init, of _ "(4, 4)"])
      (simp add: PollState10_def main_init10_def Let_def pin_defs PWR_STATE_defs
        DELAY_1S_CNT_def)
  from C9_HostButton_invariant [of "sample13 0 0 0" sample_iotn13
      "(sample13 1 1 1)\<lparr>PORTB := 1\<rparr>" "(4, 4)" "sample10 0 0 0" sample_iotn10
      "(sample10 1 1 1)\<lparr>PORTB := 0\<rparr>"] hw r13 r10
  show ?thesis
    by blast
qed

subsection \<open>The source against the transition table\<close>

text \<open>
  A state the machine reaches: after a reset, 85 cycles with the button pressed and no host
  request leave it in Off with both counters at 85 and the power switch still off.
\<close>

lemma reach_PollLoop:
  "reach step init s \<Longrightarrow> PollLoop step rs s = Return s' \<Longrightarrow> reach step init s'"
proof (induction rs arbitrary: s)
  case Nil
  then show ?case by simp
next
  case (Cons r rs)
  from Cons.prems(2) obtain s1 where s1: "step r s = Return s1" "PollLoop step rs s1 = Return s'"
    by (auto split: outcome.splits)
  from Cons.prems(1) s1(1) have "reach step init s1"
    by (rule reach_step)
  with s1(2) show ?case
    by (rule Cons.IH[rotated])
qed

lemma main_init_reset:
  "main_init13 reset13 = sample13 0 0 0" "main_init10 reset10 = sample10 0 0 0"
  by (simp_all add: main_init13_def main_init10_def pin_defs)

lemma unat_of_nat_small: "n < 65536 \<Longrightarrow> unat (of_nat n :: 16 word) = n"
  by (simp add: unat_of_nat)

lemma Off_press_step13:
  assumes "k < 85"
  shows "PollState13 h (0, 0) (sample13 0 (of_nat k) (of_nat k)) =
         Return (sample13 0 (of_nat (Suc k)) (of_nat (Suc k)))"
proof -
  from assms have "unat (of_nat (Suc k) :: 16 word) = Suc k"
    by (intro unat_of_nat_small) simp
  with assms show ?thesis
    by (simp add: PollState13_def Let_def pin_defs PWR_STATE_defs DELAY_1S_CNT_def add.commute)
qed

lemma Off_press_step10:
  assumes "k < 85"
  shows "PollState10 h (0, 0) (sample10 0 (of_nat k) (of_nat k)) =
         Return (sample10 0 (of_nat (Suc k)) (of_nat (Suc k)))"
proof -
  from assms have "unat (of_nat (Suc k) :: 16 word) = Suc k"
    by (intro unat_of_nat_small) simp
  with assms show ?thesis
    by (simp add: PollState10_def Let_def pin_defs PWR_STATE_defs DELAY_1S_CNT_def add.commute)
qed

lemma Off_press_run13:
  "k + n \<le> 85 \<Longrightarrow>
   PollLoop (PollState13 h) (replicate n (0, 0)) (sample13 0 (of_nat k) (of_nat k)) =
   Return (sample13 0 (of_nat (k + n)) (of_nat (k + n)))"
proof (induction n arbitrary: k)
  case 0
  then show ?case by simp
next
  case (Suc n)
  then have "k < 85" and "Suc k + n \<le> 85"
    by simp_all
  from Off_press_step13 [OF this(1)] Suc.IH [OF this(2)] show ?case
    by simp
qed

lemma Off_press_run10:
  "k + n \<le> 85 \<Longrightarrow>
   PollLoop (PollState10 h) (replicate n (0, 0)) (sample10 0 (of_nat k) (of_nat k)) =
   Return (sample10 0 (of_nat (k + n)) (of_nat (k + n)))"
proof (induction n arbitrary: k)
  case 0
  then show ?case by simp
next
  case (Suc n)
  then have "k < 85" and "Suc k + n \<le> 85"
    by simp_all
  from Off_press_step10 [OF this(1)] Suc.IH [OF this(2)] show ?case
    by simp
qed

lemma held_85_cycles:
  "PollLoop (PollState13 h) (replicate 85 (0, 0)) (main_init13 reset13) =
     Return (sample13 0 85 85)"
  "PollLoop (PollState10 h') (replicate 85 (0, 0)) (main_init10 reset10) =
     Return (sample10 0 85 85)"
  using Off_press_run13 [of 0 85 h] Off_press_run10 [of 0 85 h']
  by (simp_all only: main_init_reset) simp_all

lemma held_85_reach:
  "reach (PollState13 h) (main_init13 reset13) (sample13 0 85 85)"
  "reach (PollState10 h') (main_init10 reset10) (sample10 0 85 85)"
  by (rule reach_PollLoop [OF reach_init held_85_cycles(1)])
    (rule reach_PollLoop [OF reach_init held_85_cycles(2)])


text \<open>Where the source and the table read with first match agree.\<close>

lemma spec_refines13:
  assumes "view s = view_of_spec c"
    and "pwrCtrlState s \<noteq> PWR_STATE_off \<or> length (filter id (Off_conditions r s)) \<le> 1"
  shows "view_outcome (PollState13 h r s) =
         map_prod id view_of_spec
           (spec_Advance DELAY_1S_CNT (ButtonPressed r) (HostPowerRequest r) c)"
  using assms
  by (cases "State c")
    (auto simp add: PollState13_def Let_def view_def view_of_spec_def spec_Advance_def
      Off_conditions_def signal_defs PWR_STATE_defs BIT_set BIT_clear BIT_pins
      split: if_splits)

lemma spec_refines10:
  assumes "view s = view_of_spec c"
    and "pwrCtrlState s \<noteq> PWR_STATE_off \<or> length (filter id (Off_conditions r s)) \<le> 1"
  shows "view_outcome (PollState10 h r s) =
         map_prod id view_of_spec
           (spec_Advance DELAY_1S_CNT (ButtonPressed r) (HostPowerRequest r) c)"
  using assms
  by (cases "State c")
    (auto simp add: PollState10_def Let_def view_def view_of_spec_def spec_Advance_def
      Off_conditions_def signal_defs PWR_STATE_defs BIT_set BIT_clear BIT_pins
      split: if_splits)

text \<open>A cycle in state Off with a host request, whatever else holds.\<close>

lemma Off_host13:
  assumes "pwrCtrlState s = PWR_STATE_off" "HostPowerRequest r"
  shows "view_outcome (PollState13 h r s) =
     (False, PWR_STATE_on, (if ButtonPressed r then btnTime s + 1 else 0),
      (if ButtonPressed r \<and> 1 * DELAY_1S_CNT < unat (btnTime s + 1) then 0
       else waitTimer s + 1),
      True, HostButtonSignal s)"
  using assms
  by (simp add: PollState13_def Let_def view_def signal_defs PWR_STATE_defs BIT_clear)

lemma Off_host10:
  assumes "pwrCtrlState s = PWR_STATE_off" "HostPowerRequest r"
  shows "view_outcome (PollState10 h r s) =
     (False, PWR_STATE_on, (if ButtonPressed r then btnTime s + 1 else 0),
      (if ButtonPressed r \<and> 1 * DELAY_1S_CNT < unat (btnTime s + 1) then 0
       else waitTimer s + 1),
      True, HostButtonSignal s)"
  using assms
  by (simp add: PollState10_def Let_def view_def signal_defs PWR_STATE_defs BIT_clear)

text \<open>
  C1, as the spec states it: after the counters' update the conditions of the current
  state are checked top to bottom and only the first match is applied, so in state Off at
  most one of the three actions takes effect in a cycle. Take the machine after a reset
  and 85 cycles of a pressed button: state Off, both counters at 85. In the next cycle,
  with the button still pressed and the host now requesting power, conditions two and
  three hold. The table gives the button's action alone and stays in Off. The source has
  no \<^verbatim>\<open>break\<close> or \<^verbatim>\<open>else\<close> between the three \<^verbatim>\<open>if\<close> statements of \<^verbatim>\<open>case PWR_STATE_off\<close>: it
  resets the idle counter (the button's action) and goes to On (the host's action), in
  both variants.
\<close>

theorem C1_first_match_counterexample:
  "PollLoop (PollState13 sample_iotn13) (replicate 85 (0, 0)) (main_init13 reset13) =
     Return (sample13 0 85 85) \<and>
   PollLoop (PollState10 sample_iotn10) (replicate 85 (0, 0)) (main_init10 reset10) =
     Return (sample10 0 85 85) \<and>
   reach (PollState13 sample_iotn13) (main_init13 reset13) (sample13 0 85 85) \<and>
   reach (PollState10 sample_iotn10) (main_init10 reset10) (sample10 0 85 85) \<and>
   view (sample13 0 85 85) =
     view_of_spec \<lparr>State = Off, ButtonHoldCounter = 85, IdleCounter = 85, PowerOutput = False,
       HostButtonOut = HighImpedance\<rparr> \<and>
   view (sample10 0 85 85) =
     view_of_spec \<lparr>State = Off, ButtonHoldCounter = 85, IdleCounter = 85, PowerOutput = False,
       HostButtonOut = HighImpedance\<rparr> \<and>
   Off_conditions (4, 4) (sample13 0 85 85) = [False, True, True] \<and>
   map_prod id view_of_spec
     (spec_Advance DELAY_1S_CNT (ButtonPressed (4, 4)) (HostPowerRequest (4, 4))
        \<lparr>State = Off, ButtonHoldCounter = 85, IdleCounter = 85, PowerOutput = False,
          HostButtonOut = HighImpedance\<rparr>) =
     (False, PWR_STATE_off, 86, 0, True, HighImpedance) \<and>
   view_outcome (PollState13 sample_iotn13 (4, 4) (sample13 0 85 85)) =
     (False, PWR_STATE_on, 86, 0, True, HighImpedance) \<and>
   view_outcome (PollState10 sample_iotn10 (4, 4) (sample10 0 85 85)) =
     (False, PWR_STATE_on, 86, 0, True, HighImpedance) \<and>
   view_outcome (PollState13 sample_iotn13 (4, 4) (sample13 0 85 85)) \<noteq>
     map_prod id view_of_spec
       (spec_Advance DELAY_1S_CNT (ButtonPressed (4, 4)) (HostPowerRequest (4, 4))
          \<lparr>State = Off, ButtonHoldCounter = 85, IdleCounter = 85, PowerOutput = False,
            HostButtonOut = HighImpedance\<rparr>) \<and>
   view_outcome (PollState10 sample_iotn10 (4, 4) (sample10 0 85 85)) \<noteq>
     map_prod id view_of_spec
       (spec_Advance DELAY_1S_CNT (ButtonPressed (4, 4)) (HostPowerRequest (4, 4))
          \<lparr>State = Off, ButtonHoldCounter = 85, IdleCounter = 85, PowerOutput = False,
            HostButtonOut = HighImpedance\<rparr>)"
proof -
  have "view (sample13 0 85 85) =
     view_of_spec \<lparr>State = Off, ButtonHoldCounter = 85, IdleCounter = 85, PowerOutput = False,
       HostButtonOut = HighImpedance\<rparr> \<and>
   view (sample10 0 85 85) =
     view_of_spec \<lparr>State = Off, ButtonHoldCounter = 85, IdleCounter = 85, PowerOutput = False,
       HostButtonOut = HighImpedance\<rparr> \<and>
   Off_conditions (4, 4) (sample13 0 85 85) = [False, True, True] \<and>
   map_prod id view_of_spec
     (spec_Advance DELAY_1S_CNT (ButtonPressed (4, 4)) (HostPowerRequest (4, 4))
        \<lparr>State = Off, ButtonHoldCounter = 85, IdleCounter = 85, PowerOutput = False,
          HostButtonOut = HighImpedance\<rparr>) =
     (False, PWR_STATE_off, 86, 0, True, HighImpedance) \<and>
   view_outcome (PollState13 sample_iotn13 (4, 4) (sample13 0 85 85)) =
     (False, PWR_STATE_on, 86, 0, True, HighImpedance) \<and>
   view_outcome (PollState10 sample_iotn10 (4, 4) (sample10 0 85 85)) =
     (False, PWR_STATE_on, 86, 0, True, HighImpedance) \<and>
   view_outcome (PollState13 sample_iotn13 (4, 4) (sample13 0 85 85)) \<noteq>
     map_prod id view_of_spec
       (spec_Advance DELAY_1S_CNT (ButtonPressed (4, 4)) (HostPowerRequest (4, 4))
          \<lparr>State = Off, ButtonHoldCounter = 85, IdleCounter = 85, PowerOutput = False,
            HostButtonOut = HighImpedance\<rparr>) \<and>
   view_outcome (PollState10 sample_iotn10 (4, 4) (sample10 0 85 85)) \<noteq>
     map_prod id view_of_spec
       (spec_Advance DELAY_1S_CNT (ButtonPressed (4, 4)) (HostPowerRequest (4, 4))
          \<lparr>State = Off, ButtonHoldCounter = 85, IdleCounter = 85, PowerOutput = False,
            HostButtonOut = HighImpedance\<rparr>)"
    by (simp add: PollState13_def PollState10_def Let_def view_def view_of_spec_def
        spec_Advance_def Off_conditions_def signal_defs PWR_STATE_defs pin_defs
        DELAY_1S_CNT_def)
  with held_85_cycles(1) [of sample_iotn13] held_85_cycles(2) [of sample_iotn10]
    held_85_reach(1) [of sample_iotn13] held_85_reach(2) [of sample_iotn10]
  show ?thesis
    by blast
qed

text \<open>
  C1, amended: in states On and TurningOff, and in state Off in a cycle in which at most
  one of the three conditions of Off holds, the result of \<^verbatim>\<open>PollState\<close> is that of updating
  the two counters and then applying only the first condition of the table that matches.
  In state Off in a cycle with a host request the host-triggered power-on takes effect
  whether or not an earlier condition matched: the machine returns in On with the power
  output enabled and the button line unchanged, and the idle counter is reset to 0 in that
  same cycle if the button threshold is exceeded too, and incremented otherwise. Nothing
  is said of a cycle in Off in which the idle and the button condition hold without a
  host request. Both variants.
\<close>

theorem C1_first_match_amended:
  "(view s = view_of_spec c \<and>
    (pwrCtrlState s \<noteq> PWR_STATE_off \<or> length (filter id (Off_conditions r s)) \<le> 1) \<longrightarrow>
      view_outcome (PollState13 h r s) =
      map_prod id view_of_spec
        (spec_Advance DELAY_1S_CNT (ButtonPressed r) (HostPowerRequest r) c)) \<and>
   (view t = view_of_spec c' \<and>
    (pwrCtrlState t \<noteq> PWR_STATE_off \<or> length (filter id (Off_conditions r t)) \<le> 1) \<longrightarrow>
      view_outcome (PollState10 h' r t) =
      map_prod id view_of_spec
        (spec_Advance DELAY_1S_CNT (ButtonPressed r) (HostPowerRequest r) c')) \<and>
   (pwrCtrlState s = PWR_STATE_off \<and> HostPowerRequest r \<longrightarrow>
      view_outcome (PollState13 h r s) =
        (False, PWR_STATE_on, (if ButtonPressed r then btnTime s + 1 else 0),
         (if ButtonPressed r \<and> 1 * DELAY_1S_CNT < unat (btnTime s + 1) then 0
          else waitTimer s + 1),
         True, HostButtonSignal s)) \<and>
   (pwrCtrlState t = PWR_STATE_off \<and> HostPowerRequest r \<longrightarrow>
      view_outcome (PollState10 h' r t) =
        (False, PWR_STATE_on, (if ButtonPressed r then btnTime t + 1 else 0),
         (if ButtonPressed r \<and> 1 * DELAY_1S_CNT < unat (btnTime t + 1) then 0
          else waitTimer t + 1),
         True, HostButtonSignal t))"
  using spec_refines13 [of s c r h] spec_refines10 [of t c' r h'] Off_host13 [of s r h]
    Off_host10 [of t r h']
  by blast


theorem C1_first_match_amended_witness:
  "reach (PollState13 sample_iotn13) (main_init13 reset13) (sample13 0 85 85) \<and>
   reach (PollState10 sample_iotn10) (main_init10 reset10) (sample10 0 85 85) \<and>
   view (sample13 0 85 85) =
     view_of_spec \<lparr>State = Off, ButtonHoldCounter = 85, IdleCounter = 85, PowerOutput = False,
       HostButtonOut = HighImpedance\<rparr> \<and>
   view (sample10 0 85 85) =
     view_of_spec \<lparr>State = Off, ButtonHoldCounter = 85, IdleCounter = 85, PowerOutput = False,
       HostButtonOut = HighImpedance\<rparr> \<and>
   Off_conditions (0, 0) (sample13 0 85 85) = [False, True, False] \<and>
   Off_conditions (0, 0) (sample10 0 85 85) = [False, True, False] \<and>
   view_outcome (PollState13 sample_iotn13 (0, 0) (sample13 0 85 85)) =
     map_prod id view_of_spec
       (spec_Advance DELAY_1S_CNT (ButtonPressed (0, 0)) (HostPowerRequest (0, 0))
          \<lparr>State = Off, ButtonHoldCounter = 85, IdleCounter = 85, PowerOutput = False,
            HostButtonOut = HighImpedance\<rparr>) \<and>
   view_outcome (PollState10 sample_iotn10 (0, 0) (sample10 0 85 85)) =
     map_prod id view_of_spec
       (spec_Advance DELAY_1S_CNT (ButtonPressed (0, 0)) (HostPowerRequest (0, 0))
          \<lparr>State = Off, ButtonHoldCounter = 85, IdleCounter = 85, PowerOutput = False,
            HostButtonOut = HighImpedance\<rparr>) \<and>
   view_outcome (PollState13 sample_iotn13 (0, 0) (sample13 0 85 85)) =
     (False, PWR_STATE_off, 86, 0, True, HighImpedance) \<and>
   pwrCtrlState (sample13 0 85 85) = PWR_STATE_off \<and>
   pwrCtrlState (sample10 0 85 85) = PWR_STATE_off \<and>
   HostPowerRequest (4, 4) \<and> ButtonPressed (4, 4) \<and>
   view_outcome (PollState13 sample_iotn13 (4, 4) (sample13 0 85 85)) =
     (False, PWR_STATE_on, 86, 0, True, HighImpedance) \<and>
   view_outcome (PollState10 sample_iotn10 (4, 4) (sample10 0 85 85)) =
     (False, PWR_STATE_on, 86, 0, True, HighImpedance)"
proof -
  let ?c = "\<lparr>State = Off, ButtonHoldCounter = 85, IdleCounter = 85, PowerOutput = False,
       HostButtonOut = HighImpedance\<rparr>"
  note r = held_85_reach(1) [of sample_iotn13] held_85_reach(2) [of sample_iotn10]
  have v: "view (sample13 0 85 85) = view_of_spec ?c" "view (sample10 0 85 85) = view_of_spec ?c"
    by (simp_all add: view_def view_of_spec_def signal_defs pin_defs PWR_STATE_defs)
  have c: "Off_conditions (0, 0) (sample13 0 85 85) = [False, True, False]"
    "Off_conditions (0, 0) (sample10 0 85 85) = [False, True, False]"
    by (simp_all add: Off_conditions_def pin_defs DELAY_1S_CNT_def)
  then have one: "length (filter id (Off_conditions (0, 0) (sample13 0 85 85))) \<le> 1"
    "length (filter id (Off_conditions (0, 0) (sample10 0 85 85))) \<le> 1"
    by simp_all
  have o: "view_outcome (PollState13 sample_iotn13 (0, 0) (sample13 0 85 85)) =
     (False, PWR_STATE_off, 86, 0, True, HighImpedance)"
    by (simp add: PollState13_def Let_def view_def signal_defs pin_defs PWR_STATE_defs
        DELAY_1S_CNT_def)
  have host: "HostPowerRequest (4, 4)" "ButtonPressed (4, 4)"
    by (simp_all add: signal_defs pin_defs)
  have off: "pwrCtrlState (sample13 0 85 85) = PWR_STATE_off"
    "pwrCtrlState (sample10 0 85 85) = PWR_STATE_off"
    by (simp_all add: PWR_STATE_defs)
  have line: "HostButtonSignal (sample13 0 85 85) = HighImpedance"
    "HostButtonSignal (sample10 0 85 85) = HighImpedance"
    by (simp_all add: HostButtonSignal_def pin_defs)
  have held: "1 * DELAY_1S_CNT < unat ((85 :: 16 word) + 1)"
    by (simp add: DELAY_1S_CNT_def)
  from C1_first_match_amended [of "sample13 0 85 85" ?c "(0, 0)" sample_iotn13
      "sample10 0 85 85" ?c sample_iotn10] v one
  have a: "view_outcome (PollState13 sample_iotn13 (0, 0) (sample13 0 85 85)) =
     map_prod id view_of_spec
       (spec_Advance DELAY_1S_CNT (ButtonPressed (0, 0)) (HostPowerRequest (0, 0)) ?c)"
    "view_outcome (PollState10 sample_iotn10 (0, 0) (sample10 0 85 85)) =
     map_prod id view_of_spec
       (spec_Advance DELAY_1S_CNT (ButtonPressed (0, 0)) (HostPowerRequest (0, 0)) ?c)"
    by blast+
  from C1_first_match_amended [of "sample13 0 85 85" ?c "(4, 4)" sample_iotn13
      "sample10 0 85 85" ?c sample_iotn10] off host(1)
  have "view_outcome (PollState13 sample_iotn13 (4, 4) (sample13 0 85 85)) =
        (False, PWR_STATE_on,
         (if ButtonPressed (4, 4) then btnTime (sample13 0 85 85) + 1 else 0),
         (if ButtonPressed (4, 4) \<and> 1 * DELAY_1S_CNT < unat (btnTime (sample13 0 85 85) + 1)
          then 0 else waitTimer (sample13 0 85 85) + 1),
         True, HostButtonSignal (sample13 0 85 85))"
    "view_outcome (PollState10 sample_iotn10 (4, 4) (sample10 0 85 85)) =
        (False, PWR_STATE_on,
         (if ButtonPressed (4, 4) then btnTime (sample10 0 85 85) + 1 else 0),
         (if ButtonPressed (4, 4) \<and> 1 * DELAY_1S_CNT < unat (btnTime (sample10 0 85 85) + 1)
          then 0 else waitTimer (sample10 0 85 85) + 1),
         True, HostButtonSignal (sample10 0 85 85))"
    by blast+
  with host line held
  have b: "view_outcome (PollState13 sample_iotn13 (4, 4) (sample13 0 85 85)) =
     (False, PWR_STATE_on, 86, 0, True, HighImpedance)"
    "view_outcome (PollState10 sample_iotn10 (4, 4) (sample10 0 85 85)) =
     (False, PWR_STATE_on, 86, 0, True, HighImpedance)"
    by simp_all
  from r v c a o off host b show ?thesis
    by blast
qed

section \<open>The waiting loops\<close>

subsection \<open>One tick of the counter\<close>

lemma unat_tick:
  fixes w :: "'a::len word"
  assumes "w + 1 \<noteq> 0"
  shows "unat (w + 1) = unat w + 1"
  using assms unatSuc [of w] by (simp add: add.commute)

lemma unat_wrap:
  fixes w :: "'a::len word"
  assumes "w + 1 = 0"
  shows "unat w + 1 = 2 ^ LENGTH('a)"
proof (rule ccontr)
  assume "unat w + 1 \<noteq> 2 ^ LENGTH('a)"
  moreover have "unat w < 2 ^ LENGTH('a)"
    by (rule unsigned_less)
  ultimately have "unat w + 1 < 2 ^ LENGTH('a)"
    by linarith
  then have "(unat w + 1) mod 2 ^ LENGTH('a) = unat w + 1"
    by (rule mod_less)
  moreover from assms unat_word_ariths(1) [of w 1] have "(unat w + 1) mod 2 ^ LENGTH('a) = 0"
    by simp
  ultimately show False
    by simp
qed

lemma unat_tick_below:
  fixes w :: "'a::len word"
  assumes "w < m"
  shows "unat (w + 1) = unat w + 1"
proof -
  from assms have "unat w < unat m"
    by (simp add: word_less_nat_alt)
  moreover have "unat m < 2 ^ LENGTH('a)" and "unat (1 :: 'a word) = 1"
    by (rule unsigned_less) simp
  ultimately have "unat w + unat (1 :: 'a word) < 2 ^ LENGTH('a)"
    by linarith
  then have "unat (w + 1) = unat w + unat (1 :: 'a word)"
    by (simp only: unat_add_lem)
  then show ?thesis
    by simp
qed

subsection \<open>What the polling loops return\<close>

text \<open>
  The recursion equations of the loops are taken out of the simplifier's rules inside the
  proofs and unfolded by hand, one iteration at a time.
\<close>

lemmas loop_simps = wait_while_below.simps wait_while_above.simps WaitMs13_for.simps

lemma wait_while_below_result:
  "TCNT0 t \<le> cnt \<Longrightarrow>
   wait_while_below cnt t =
     t\<lparr>TCNT0 := cnt, elapsed := elapsed t + (unat cnt - unat (TCNT0 t))\<rparr>"
proof (induction cnt t rule: wait_while_below.induct)
  case (1 cnt t)
  note loop_simps [simp del]
  show ?case
  proof (cases "TCNT0 t < cnt")
    case True
    then have le: "TCNT0 t + 1 \<le> cnt"
      by (rule inc_le)
    from True have lt: "unat (TCNT0 t) < unat cnt"
      by (simp add: word_less_nat_alt)
    from True have u: "unat (TCNT0 t + 1) = unat (TCNT0 t) + 1"
      by (rule unat_tick_below)
    from le have "TCNT0 (tick t) \<le> cnt"
      by (simp add: tick_def)
    from "1.IH" [OF True this] have
      "wait_while_below cnt (tick t) =
        (tick t)\<lparr>TCNT0 := cnt, elapsed := elapsed (tick t) + (unat cnt - unat (TCNT0 (tick t)))\<rparr>" .
    moreover from True have "wait_while_below cnt t = wait_while_below cnt (tick t)"
      by (subst wait_while_below.simps) simp
    moreover from lt u have "elapsed (tick t) + (unat cnt - unat (TCNT0 (tick t))) =
        elapsed t + (unat cnt - unat (TCNT0 t))"
      by (simp add: tick_def)
    ultimately show ?thesis
      by (simp add: tick_def)
  next
    case False
    with "1.prems" have eq: "TCNT0 t = cnt"
      by simp
    from False have "wait_while_below cnt t = t"
      by (subst wait_while_below.simps) simp
    with eq show ?thesis
      by simp
  qed
qed

lemma wait_while_above_result:
  fixes k :: "'a::len word"
  shows "k < TCNT0 t \<Longrightarrow>
   wait_while_above k t =
     t\<lparr>TCNT0 := 0, elapsed := elapsed t + (2 ^ LENGTH('a) - unat (TCNT0 t))\<rparr>"
proof (induction k t rule: wait_while_above.induct)
  case (1 k t)
  note loop_simps [simp del]
  from "1.prems" have step: "wait_while_above k t = wait_while_above k (tick t)"
    by (subst wait_while_above.simps) simp
  show ?case
  proof (cases "TCNT0 t + 1 = 0")
    case True
    then have "unat (TCNT0 t) + 1 = 2 ^ LENGTH('a)"
      by (rule unat_wrap)
    then have one: "2 ^ LENGTH('a) - unat (TCNT0 t) = 1"
      by linarith
    from True have "wait_while_above k (tick t) = tick t"
      by (subst wait_while_above.simps) (simp add: tick_def)
    with step True one show ?thesis
      by (simp add: tick_def)
  next
    case False
    then have u: "unat (TCNT0 t + 1) = unat (TCNT0 t) + 1"
      by (rule unat_tick)
    with "1.prems" have "k < TCNT0 t + 1"
      by (simp add: word_less_nat_alt)
    then have gt: "k < TCNT0 (tick t)"
      by (simp add: tick_def)
    have b: "unat (TCNT0 t + 1) < 2 ^ LENGTH('a)"
      by (rule unsigned_less)
    with u have "elapsed (tick t) + (2 ^ LENGTH('a) - unat (TCNT0 (tick t))) =
        elapsed t + (2 ^ LENGTH('a) - unat (TCNT0 t))"
      by (simp add: tick_def)
    with "1.IH" [OF "1.prems" gt] step show ?thesis
      by (simp add: tick_def)
  qed
qed


subsection \<open>The time \<^verbatim>\<open>WaitMs\<close> takes\<close>

lemma mod_wrap_once:
  fixes x n :: nat
  assumes "n \<le> x" "x < 2 * n"
  shows "x mod n = x - n"
proof -
  from assms(1) have "x mod n = (x - n) mod n"
    by (rule le_mod_geq)
  also from assms have "\<dots> = x - n"
    by simp
  finally show ?thesis .
qed

lemma WaitMs13_body:
  fixes t :: "8 word timer"
  assumes m: "unat (TCNT0 t) mod 16 = 0" and c: "cnt = TCNT0 t + 16"
  defines "t' \<equiv> (if cnt = 0 then wait_while_above 200 t else wait_while_below cnt t)"
  shows "TCNT0 t' = cnt" and "elapsed t' = elapsed t + 16" and "unat (TCNT0 t') mod 16 = 0"
proof -
  note loop_simps [simp del]
  have b: "unat (TCNT0 t) < 256"
    using unsigned_less [of "TCNT0 t"] by simp
  have uc: "unat cnt = (unat (TCNT0 t) + 16) mod 256"
    using unat_word_ariths(1) [of "TCNT0 t" 16] c by simp
  have "TCNT0 t' = cnt \<and> elapsed t' = elapsed t + 16 \<and> unat (TCNT0 t') mod 16 = 0"
  proof (cases "unat (TCNT0 t) + 16 < 256")
    case True
    with uc have u: "unat cnt = unat (TCNT0 t) + 16"
      by simp
    then have nz: "cnt \<noteq> 0"
      using unat_0_iff [of cnt] by simp
    from u have "TCNT0 t \<le> cnt"
      by (simp add: word_le_nat_alt)
    from wait_while_below_result [OF this] nz u m show ?thesis
      by (simp add: t'_def)
  next
    case False
    with b m have u: "unat (TCNT0 t) = 240"
      by presburger
    with uc have "unat cnt = 0"
      by simp
    then have z: "cnt = 0"
      by (simp add: unat_0_iff)
    from u have "200 < TCNT0 t"
      by (simp add: word_less_nat_alt)
    from wait_while_above_result [OF this] z u show ?thesis
      by (simp add: t'_def)
  qed
  then show "TCNT0 t' = cnt" and "elapsed t' = elapsed t + 16"
    and "unat (TCNT0 t') mod 16 = 0"
    by blast+
qed

lemma WaitMs13_for_elapsed:
  "unat (TCNT0 t) mod 16 = 0 \<Longrightarrow> cnt = TCNT0 t + 16 \<Longrightarrow> i \<le> ms \<Longrightarrow>
   elapsed (WaitMs13_for ms i cnt t) = elapsed t + 16 * (unat ms - unat i)"
proof (induction ms i cnt t rule: WaitMs13_for.induct)
  case (1 ms i cnt t)
  note loop_simps [simp del]
  show ?case
  proof (cases "i < ms")
    case True
    let ?t' = "if cnt = 0 then wait_while_above 200 t else wait_while_below cnt t"
    note t' = WaitMs13_body [OF "1.prems"(1,2)]
    from True have le: "i + 1 \<le> ms"
      by (rule inc_le)
    from True have ui: "unat (i + 1) = unat i + 1"
      by (rule unat_tick_below)
    from True have lt: "unat i < unat ms"
      by (simp add: word_less_nat_alt)
    from t'(1) have "cnt + 16 = TCNT0 ?t' + 16"
      by simp
    from "1.IH" [OF True t'(3) this le]
    have "elapsed (WaitMs13_for ms (i + 1) (cnt + 16) ?t') =
        elapsed ?t' + 16 * (unat ms - unat (i + 1))" .
    moreover from True have "WaitMs13_for ms i cnt t = WaitMs13_for ms (i + 1) (cnt + 16) ?t'"
      by (subst WaitMs13_for.simps) simp
    ultimately have "elapsed (WaitMs13_for ms i cnt t) =
        elapsed t + 16 + 16 * (unat ms - (unat i + 1))"
      using t'(2) ui by (simp only:)
    with lt show ?thesis
      by simp
  next
    case False
    with "1.prems"(3) have "i = ms"
      by simp
    moreover from False have "WaitMs13_for ms i cnt t = t"
      by (subst WaitMs13_for.simps) simp
    ultimately show ?thesis
      by simp
  qed
qed

lemma WaitMs13_elapsed: "elapsed (WaitMs13 ms t) = elapsed t + 16 * unat ms"
  using WaitMs13_for_elapsed [of "t\<lparr>TCNT0 := 0\<rparr>" 16 0 ms]
  by (simp add: WaitMs13_def del: loop_simps)

lemma WaitMs10_elapsed:
  assumes "unat ms < 4096"
  shows "elapsed (WaitMs10 ms t) = elapsed t + 16 * unat ms"
proof -
  note loop_simps [simp del]
  let ?cnt = "TCNT0 t + ms * 16"
  have b: "unat (TCNT0 t) < 65536"
    using unsigned_less [of "TCNT0 t"] by simp
  from assms have "unat ms * unat (16 :: 16 word) < 2 ^ LENGTH(16)"
    by simp
  then have "unat (ms * 16) = unat ms * unat (16 :: 16 word)"
    by (simp only: unat_mult_lem)
  then have um: "unat (ms * 16) = 16 * unat ms"
    by simp
  have uc: "unat ?cnt = (unat (TCNT0 t) + 16 * unat ms) mod 65536"
    using unat_word_ariths(1) [of "TCNT0 t" "ms * 16"] um by simp
  show ?thesis
  proof (cases "unat (TCNT0 t) + 16 * unat ms < 65536")
    case True
    with uc have u: "unat ?cnt = unat (TCNT0 t) + 16 * unat ms"
      by simp
    then have le: "TCNT0 t \<le> ?cnt"
      by (simp add: word_le_nat_alt)
    then have "\<not> ?cnt < TCNT0 t"
      by simp
    with wait_while_below_result [OF le] u show ?thesis
      by (simp add: WaitMs10_def Let_def)
  next
    case False
    with b assms have "65536 \<le> unat (TCNT0 t) + 16 * unat ms"
      and "unat (TCNT0 t) + 16 * unat ms < 2 * 65536"
      by linarith+
    then have "(unat (TCNT0 t) + 16 * unat ms) mod 65536 = unat (TCNT0 t) + 16 * unat ms - 65536"
      by (rule mod_wrap_once)
    with uc have u: "unat ?cnt = unat (TCNT0 t) + 16 * unat ms - 65536"
      by simp
    with False assms have lt': "unat ?cnt < unat (TCNT0 t)"
      by linarith
    then have lt: "?cnt < TCNT0 t"
      by (simp add: word_less_nat_alt)
    have "unat (TCNT0 t) \<noteq> 1"
    proof
      assume "unat (TCNT0 t) = 1"
      with lt' u False have "16 * unat ms = 65535"
        by linarith
      then show False
        by presburger
    qed
    with lt' have "1 < unat (TCNT0 t)"
      by linarith
    then have "1 < TCNT0 t"
      by (simp add: word_less_nat_alt)
    from wait_while_above_result [OF this]
    have a: "wait_while_above 1 t =
        t\<lparr>TCNT0 := 0, elapsed := elapsed t + (65536 - unat (TCNT0 t))\<rparr>"
      by simp
    have "TCNT0 (wait_while_above 1 t) \<le> ?cnt"
      by (simp add: a)
    from wait_while_below_result [OF this] a
    have "elapsed (wait_while_below ?cnt (wait_while_above 1 t)) =
        elapsed t + (65536 - unat (TCNT0 t)) + unat ?cnt"
      by simp
    moreover from u b False have "elapsed t + (65536 - unat (TCNT0 t)) + unat ?cnt =
        elapsed t + 16 * unat ms"
      by linarith
    ultimately show ?thesis
      using lt by (simp add: WaitMs10_def Let_def)
  qed
qed


text \<open>
  C5, as the spec states it: for every requested duration \<^verbatim>\<open>WaitMs\<close> blocks for at least the
  requested number of milliseconds. On the ATTINY10 the product \<^verbatim>\<open>ms*16\<close> wraps at 16 bits
  (``max wait 4s''): a request of 4097 ms with the counter at 0 computes \<^verbatim>\<open>cnt = 16\<close> and
  returns after 16 ticks, one millisecond.
\<close>

theorem C5_WaitMs_counterexample:
  "elapsed (WaitMs10 4097 \<lparr>TCNT0 = 0, elapsed = 0\<rparr>) = 16 \<and>
   \<not> (elapsed \<lparr>TCNT0 = 0 :: 16 word, elapsed = 0\<rparr> + 16 * unat (4097 :: 16 word)
        \<le> elapsed (WaitMs10 4097 \<lparr>TCNT0 = 0, elapsed = 0\<rparr>))"
proof -
  note loop_simps [simp del]
  have cnt: "(0 :: 16 word) + 4097 * 16 = 16"
    by simp
  have "TCNT0 \<lparr>TCNT0 = 0 :: 16 word, elapsed = 0\<rparr> \<le> 16"
    by simp
  from wait_while_below_result [OF this]
  have "elapsed (wait_while_below 16 \<lparr>TCNT0 = 0 :: 16 word, elapsed = 0\<rparr>) = 16"
    by simp
  then have "elapsed (WaitMs10 4097 \<lparr>TCNT0 = 0, elapsed = 0\<rparr>) = 16"
    unfolding WaitMs10_def Let_def by (simp only: timer.simps cnt) simp
  then show ?thesis
    by simp
qed

text \<open>
  C5, amended: with the counter sampled at every tick, \<^verbatim>\<open>WaitMs\<close> terminates and blocks for
  16 ticks per requested millisecond, neither less nor a wrap period more, whatever the
  counter reads at the call and also when it wraps during the call: on the ATTINY13 for
  every requested duration, on the ATTINY10 for every requested duration below 4096 ms.
\<close>

theorem C5_WaitMs_amended:
  "elapsed (WaitMs13 ms t) = elapsed t + 16 * unat ms \<and>
   (unat ms' < 4096 \<longrightarrow> elapsed (WaitMs10 ms' t') = elapsed t' + 16 * unat ms')"
  by (simp add: WaitMs13_elapsed WaitMs10_elapsed)

theorem C5_WaitMs_amended_witness:
  "unat (10 :: 16 word) < 4096 \<and>
   elapsed (WaitMs10 10 \<lparr>TCNT0 = 65500, elapsed = 0\<rparr>) = 160 \<and>
   elapsed (WaitMs13 20 \<lparr>TCNT0 = 77, elapsed = 0\<rparr>) = 320"
  using C5_WaitMs_amended [of 20 "\<lparr>TCNT0 = 77, elapsed = 0\<rparr>" 10
      "\<lparr>TCNT0 = 65500, elapsed = 0\<rparr>"]
  by simp

end
